theory Spec2Isabelle
  imports Complex_Main "HOL-Library.Word"
begin

section \<open>prgpt: a pull-request summary generator\<close>

text \<open>
  The repository holds three revisions of one Go program:
  \<^item> \<open>src/main.go\<close>, called revision A below (suffix \<open>_A\<close>);
  \<^item> \<open>src/unnamed/part_000\<close>, lines 1 to 109, revision B (suffix \<open>_B\<close>);
  \<^item> \<open>src/unnamed/part_000\<close>, lines 110 to 361, revision C (suffix \<open>_C\<close>).
  \<open>getCommandOutput\<close> is the same text in all three, and \<open>getAnthropicSummary\<close> is the
  same text in A and B, so each of them is embedded once.

  Everything outside the repository is a field of the record \<open>env\<close>: the operating
  system (arguments, environment variable, subprocesses), the network, and the functions
  of Go's standard library and float arithmetic that the program calls.
\<close>

subsection \<open>Data\<close>

text \<open>A \<open>float64\<close> is its IEEE-754 bit pattern (\<open>math.Float64bits\<close>).\<close>

type_synonym float64 = "64 word"

text \<open>A Go \<open>error\<close> is the text of its \<open>Error()\<close> method, which is all the program reads.\<close>

type_synonym go_error = string

text \<open>
  A decoded JSON value, as \<open>encoding/json\<close> hands it to an \<open>interface{}\<close>. An object keeps
  its members in the order of the text, duplicates included.
\<close>

datatype json =
    JNull
  | JBool bool
  | JNum float64
  | JStr string
  | JArr "json list"
  | JObj "(string \<times> json) list"

text \<open>The JSON bodies the program sends, before \<open>json.Marshal\<close>.\<close>

datatype payload =
    MessagesBody (pl_model: string) (pl_max_tokens: nat) (pl_messages: "(string \<times> string) list")
  | EmbeddingBody (pl_model: string) (pl_prompt: string)
  | CompletionBody (pl_model: string) (pl_prompt: string) (pl_stream: bool)

text \<open>
  A request as the program builds it. The headers are the arguments of \<open>Header.Set\<close> in
  the order of the calls, the names as the source writes them (\<open>http.Header\<close> stores them
  in canonical form, \<open>X-Api-Key\<close> and \<open>Anthropic-Version\<close>).
\<close>

record http_request =
  url :: string
  headers :: "(string \<times> string) list"
  body :: payload

text \<open>What the process does that can be seen from outside, in order.\<close>

datatype event =
    Exec string "string list"
  | Stdout string
  | HttpPost http_request

text \<open>How a function call ends: it returns, the process exits, or the goroutine panics.\<close>

datatype 'a outcome = Returned 'a | Exited nat | Panicked

type_synonym 'a io = "event list \<times> 'a outcome"

record completion_response =
  Response :: string
  Done :: bool

text \<open>
  The environment of a run.
  \<^item> \<open>os_args\<close> is \<open>os.Args\<close>, and \<open>api_key_env\<close> the value of \<open>ANTHROPIC_API_KEY\<close>.
  \<^item> \<open>cmd_output name args\<close> is what \<open>exec.Command(name, args...).Output()\<close> returns:
    the error, for a process that could not be started as for one that exited with a
    status other than 0, or the bytes of its standard output.
  \<^item> \<open>http_do req\<close> is what sending \<open>req\<close> and reading the whole body returns: the
    error of the transport, or the body, whatever the status code.
  \<^item> \<open>trim_space\<close> is \<open>strings.TrimSpace\<close>; \<open>json_parse\<close> is the reading of a text by
    \<open>encoding/json\<close>, with its syntax error; \<open>type_error_text\<close> is the text of the error
    for a value of the wrong kind at a field; \<open>decode_completion\<close> and \<open>decode_embedding\<close>
    are \<open>json.NewDecoder(body).Decode\<close> into the two response structs of the local
    service; \<open>marshal_floats\<close> is \<open>json.Marshal\<close> on a \<open>[]float64\<close>; \<open>base64_encode\<close> is
    \<open>base64.StdEncoding.EncodeToString\<close>.
  \<^item> \<open>add_square m v\<close> is \<open>m + v * v\<close> on \<open>float64\<close> as the implementation computes it,
    which the language allows to be one fused operation as well as a rounded product
    followed by a rounded sum; \<open>fdiv\<close> is \<open>/\<close> on \<open>float64\<close> and \<open>fsqrt\<close> is \<open>math.Sqrt\<close>.
\<close>

record env =
  os_args :: "string list"
  api_key_env :: string
  cmd_output :: "string \<Rightarrow> string list \<Rightarrow> go_error + string"
  http_do :: "http_request \<Rightarrow> go_error + string"
  trim_space :: "string \<Rightarrow> string"
  json_parse :: "string \<Rightarrow> go_error + json"
  type_error_text :: "string \<Rightarrow> go_error"
  decode_completion :: "string \<Rightarrow> go_error + completion_response"
  decode_embedding :: "string \<Rightarrow> go_error + float64 list"
  marshal_floats :: "float64 list \<Rightarrow> go_error + string"
  base64_encode :: "string \<Rightarrow> string"
  add_square :: "float64 \<Rightarrow> float64 \<Rightarrow> float64"
  fdiv :: "float64 \<Rightarrow> float64 \<Rightarrow> float64"
  fsqrt :: "float64 \<Rightarrow> float64"

subsection \<open>Sequencing\<close>

definition bind :: "'a io \<Rightarrow> ('a \<Rightarrow> 'b io) \<Rightarrow> 'b io" where
  "bind m f =
     (case m of
        (t, Returned a) \<Rightarrow> (case f a of (t', r) \<Rightarrow> (t @ t', r))
      | (t, Exited n) \<Rightarrow> (t, Exited n)
      | (t, Panicked) \<Rightarrow> (t, Panicked))"

definition println :: "string \<Rightarrow> unit io" where
  "println s = ([Stdout (s @ ''\<newline>'')], Returned ())"

definition TrimPrefix :: "string \<Rightarrow> string \<Rightarrow> string" where
  "TrimPrefix s p = (if take (length p) s = p then drop (length p) s else s)"

subsection \<open>The command runner\<close>

definition getCommandOutput :: "env \<Rightarrow> string \<Rightarrow> string list \<Rightarrow> string io" where
  "getCommandOutput e name args =
     (case cmd_output e name args of
        Inl err \<Rightarrow>
          ([Exec name args, Stdout (''Error executing command: '' @ err @ ''\<newline>'')], Exited 1)
      | Inr output \<Rightarrow> ([Exec name args], Returned (trim_space e output)))"

subsection \<open>Reading the remote answer, revisions A and B\<close>

text \<open>
  \<open>var result map[string]interface{}; json.Unmarshal(body, &result)\<close> with the error dropped:
  the map is filled only when the text is a JSON object, and stays \<open>nil\<close> (no member)
  otherwise. Indexing a Go map built from an object with a repeated key gives the last.
\<close>

definition unmarshal_map :: "env \<Rightarrow> string \<Rightarrow> (string \<times> json) list" where
  "unmarshal_map e text = (case json_parse e text of Inr (JObj kvs) \<Rightarrow> kvs | _ \<Rightarrow> [])"

definition map_index :: "(string \<times> json) list \<Rightarrow> string \<Rightarrow> json option" where
  "map_index kvs k = map_of (rev kvs) k"

definition anthropicAPIURL :: string where
  "anthropicAPIURL = ''https://api.anthropic.com/v1/messages''"

definition fallback_summary :: string where
  "fallback_summary = ''Unable to generate summary''"

definition prompt_AB :: "string \<Rightarrow> string" where
  "prompt_AB content =
     ''Summarize the following Git commits and changes overview:\<newline>\<newline>'' @ content
     @ ''\<newline>\<newline>Provide a concise summary of the changes:''"

definition request_AB :: "env \<Rightarrow> string \<Rightarrow> http_request" where
  "request_AB e content =
     \<lparr>url = anthropicAPIURL,
      headers = [(''Content-Type'', ''application/json''),
                 (''X-API-Key'', api_key_env e),
                 (''anthropic-version'', ''2023-06-01'')],
      body = MessagesBody ''claude-3-5-sonnet-20240620'' 8096 [(''user'', prompt_AB content)]\<rparr>"

text \<open>
  The assertion \<open>content[0].(map[string]interface{})\<close> has one result, so it panics when
  the first element is not an object; the other two assertions have the \<open>ok\<close> result and
  fall through to the last \<open>return\<close>.
\<close>

definition extract_text_AB :: "(string \<times> json) list \<Rightarrow> string outcome" where
  "extract_text_AB result =
     (case map_index result ''content'' of
        Some (JArr content) \<Rightarrow>
          (if length content > 0 then
             (case content ! 0 of
                JObj first \<Rightarrow>
                  (case map_index first ''text'' of
                     Some (JStr text) \<Rightarrow> Returned text
                   | _ \<Rightarrow> Returned fallback_summary)
              | _ \<Rightarrow> Panicked)
           else Returned fallback_summary)
      | _ \<Rightarrow> Returned fallback_summary)"

definition getAnthropicSummary_AB :: "env \<Rightarrow> string \<Rightarrow> string io" where
  "getAnthropicSummary_AB e content =
     (let req = request_AB e content in
      case http_do e req of
        Inl err \<Rightarrow>
          ([HttpPost req, Stdout (''Error calling Anthropic API: '' @ err @ ''\<newline>'')],
           Returned fallback_summary)
      | Inr text \<Rightarrow> ([HttpPost req], extract_text_AB (unmarshal_map e text)))"

subsection \<open>The report\<close>

definition report_AB :: "string \<Rightarrow> string \<Rightarrow> string \<Rightarrow> string \<Rightarrow> string" where
  "report_AB currentBranch commits changesOverview summary =
     ''# Pull Request Summary\<newline>\<newline>## Branch: '' @ currentBranch
     @ ''\<newline>\<newline>## Commits:\<newline>'' @ commits
     @ ''\<newline>\<newline>## Changes Overview:\<newline>'' @ changesOverview
     @ ''\<newline>\<newline>## Summary:\<newline>'' @ summary
     @ ''\<newline>\<newline>## Detailed Description:\<newline><!-- Please provide a detailed description of the changes in this PR -->\<newline>''"

definition report_C :: "string \<Rightarrow> string \<Rightarrow> string \<Rightarrow> string \<Rightarrow> string" where
  "report_C currentBranch commits changesOverview summary =
     ''# Pull Request Summary\<newline>\<newline>## Branch: '' @ currentBranch
     @ ''\<newline>\<newline>## Commits:\<newline>'' @ commits
     @ ''\<newline>\<newline>## Changes Overview:\<newline>'' @ changesOverview
     @ ''\<newline>\<newline># Summary:\<newline>'' @ summary
     @ ''\<newline>\<newline>## Detailed Description:\<newline><!-- Please provide a detailed description of the changes in this PR -->\<newline>''"

subsection \<open>\<open>main\<close>, revision A\<close>

definition range_arg :: "string \<Rightarrow> string \<Rightarrow> string" where
  "range_arg baseBranch currentBranch = baseBranch @ ''..'' @ currentBranch"

definition main_A :: "env \<Rightarrow> unit io" where
  "main_A e =
     bind (getCommandOutput e ''git'' [''rev-parse'', ''--abbrev-ref'', ''HEAD'']) (\<lambda>currentBranch.
     bind (getCommandOutput e ''git'' [''rev-parse'', ''--abbrev-ref'', ''origin/HEAD'']) (\<lambda>queried.
     let baseBranch = TrimPrefix queried ''origin/'' in
     bind (getCommandOutput e ''git''
             [''log'', range_arg baseBranch currentBranch, ''--pretty=format:%h - %s'']) (\<lambda>commits.
     bind (getCommandOutput e ''git''
             [''diff'', ''--stat'', range_arg baseBranch currentBranch]) (\<lambda>changesOverview.
     let content = ''Commits:\<newline>'' @ commits @ ''\<newline>\<newline>Changes Overview:\<newline>''
                   @ changesOverview in
     bind (getAnthropicSummary_AB e content) (\<lambda>summary.
     println (report_AB currentBranch commits changesOverview summary))))))"

subsection \<open>\<open>main\<close>, revision B\<close>

text \<open>
  \<open>os.Args\<close> holds the program's name at index 0. In the first branch of the \<open>if\<close> the
  new value of \<open>content\<close> is never read again, and \<open>summary\<close> keeps its zero value.
\<close>

definition main_B :: "env \<Rightarrow> unit io" where
  "main_B e =
     bind (getCommandOutput e ''git'' [''rev-parse'', ''--abbrev-ref'', ''HEAD'']) (\<lambda>currentBranch.
     bind (getCommandOutput e ''git'' [''rev-parse'', ''--abbrev-ref'', ''origin/HEAD'']) (\<lambda>queried.
     let baseBranch = (if length (os_args e) > 1 then os_args e ! 1
                       else TrimPrefix queried ''origin/'') in
     bind (getCommandOutput e ''git''
             [''log'', range_arg baseBranch currentBranch, ''--pretty=format:%h - %s'']) (\<lambda>commits.
     bind (getCommandOutput e ''git''
             [''diff'', range_arg baseBranch currentBranch]) (\<lambda>detailedDiff.
     bind (getCommandOutput e ''git''
             [''diff'', ''--stat'', range_arg baseBranch currentBranch]) (\<lambda>changesOverview.
     let content = ''Detailed Changes:\<newline>'' @ detailedDiff
                   @ ''\<newline>\<newline>Changes Overview:\<newline>'' @ changesOverview in
     bind (if length commits > 2
           then bind (println ''Printing out content'') (\<lambda>_.
                let content = content @ ''\<newline>\<newline>Commits:\<newline>'' @ commits in
                ([], Returned ''''))
           else getAnthropicSummary_AB e content) (\<lambda>summary.
     println (report_AB currentBranch commits changesOverview summary)))))))"

subsection \<open>The local model service, revision C\<close>

definition ollamaAPIURL :: string where
  "ollamaAPIURL = ''http://localhost:11434/api/embeddings''"

definition ollamaCompletionURL :: string where
  "ollamaCompletionURL = ''http://localhost:11434/api/generate''"

definition http_Post :: "string \<Rightarrow> payload \<Rightarrow> http_request" where
  "http_Post u b = \<lparr>url = u, headers = [(''Content-Type'', ''application/json'')], body = b\<rparr>"

text \<open>
  \<open>json.Marshal\<close> cannot fail on the two request structs (strings, a bool and a \<open>nil\<close> map),
  so the first \<open>if err != nil\<close> of \<open>getEmbeddings\<close> and of \<open>compressLogs\<close> has no branch
  here.
\<close>

definition getEmbeddings :: "env \<Rightarrow> string \<Rightarrow> (go_error + float64 list) io" where
  "getEmbeddings e text =
     (let req = http_Post ollamaAPIURL (EmbeddingBody ''nomic-embed-text'' text) in
      case http_do e req of
        Inl err \<Rightarrow> ([HttpPost req], Returned (Inl (''error calling Ollama API: '' @ err)))
      | Inr answer \<Rightarrow>
          (case decode_embedding e answer of
             Inl err \<Rightarrow> ([HttpPost req], Returned (Inl (''error decoding response: '' @ err)))
           | Inr embedding \<Rightarrow> ([HttpPost req], Returned (Inr embedding))))"

definition compress_prompt :: "string \<Rightarrow> string" where
  "compress_prompt content =
     ''Compress and summarize the following git changes into a concise but informative format, \<newline>preserving the most important technical details:\<newline>\<newline>''
     @ content @ ''\<newline>\<newline>Compressed summary:''"

definition compressLogs :: "env \<Rightarrow> string \<Rightarrow> (go_error + string) io" where
  "compressLogs e content =
     (let req = http_Post ollamaCompletionURL
                  (CompletionBody ''llama2:3.2'' (compress_prompt content) False) in
      case http_do e req of
        Inl err \<Rightarrow> ([HttpPost req], Returned (Inl (''error calling Ollama API: '' @ err)))
      | Inr answer \<Rightarrow>
          (case decode_completion e answer of
             Inl err \<Rightarrow> ([HttpPost req], Returned (Inl (''error decoding response: '' @ err)))
           | Inr result \<Rightarrow> ([HttpPost req], Returned (Inr (Response result)))))"

subsection \<open>\<open>processEmbeddings\<close>, revision C\<close>

text \<open>
  The first loop, \<open>magnitude += v * v\<close> from the zero value of \<open>float64\<close> (all bits clear,
  which is \<open>+0\<close>), then \<open>math.Sqrt\<close>.
\<close>

fun sum_squares :: "env \<Rightarrow> float64 \<Rightarrow> float64 list \<Rightarrow> float64" where
  "sum_squares e magnitude [] = magnitude"
| "sum_squares e magnitude (v # vs) = sum_squares e (add_square e magnitude v) vs"

definition magnitude_of :: "env \<Rightarrow> float64 list \<Rightarrow> float64" where
  "magnitude_of e embeddings = fsqrt e (sum_squares e 0 embeddings)"

text \<open>
  The second loop, \<open>for i, v := range embeddings { normalized[i] = v / magnitude }\<close>, on the
  slice that \<open>make([]float64, len(embeddings))\<close> filled with zeros.
\<close>

fun normalize_loop :: "env \<Rightarrow> float64 \<Rightarrow> nat \<Rightarrow> float64 list \<Rightarrow> float64 list \<Rightarrow> float64 list" where
  "normalize_loop e magnitude i [] normalized = normalized"
| "normalize_loop e magnitude i (v # vs) normalized =
     normalize_loop e magnitude (Suc i) vs (normalized[i := fdiv e v magnitude])"

definition normalized_embeddings :: "env \<Rightarrow> float64 list \<Rightarrow> float64 list" where
  "normalized_embeddings e embeddings =
     normalize_loop e (magnitude_of e embeddings) 0 embeddings
       (replicate (length embeddings) 0)"

text \<open>\<open>bytes, _ := json.Marshal(normalized)\<close>: on an error \<open>bytes\<close> is \<open>nil\<close>.\<close>

definition processEmbeddings :: "env \<Rightarrow> float64 list \<Rightarrow> string" where
  "processEmbeddings e embeddings =
     base64_encode e
       (case marshal_floats e (normalized_embeddings e embeddings) of Inl err \<Rightarrow> [] | Inr bytes \<Rightarrow> bytes)"

subsection \<open>Reading the remote answer, revision C\<close>

text \<open>
  \<open>json.Unmarshal\<close> into \<open>struct { Content []struct { Text string `json:"text"` } `json:"content"` }\<close>.
  A member's key selects a field when it equals the field's name up to the case of its
  letters; other members are skipped. \<open>null\<close> clears a slice and leaves a struct or a
  string as it is; an array is decoded element by element into a slice emptied first; a
  value of any other kind for the field is a type error, which is remembered (the first
  one only) while decoding goes on, and returned at the end.

  An element of the array is decoded here into a zero value. \<open>encoding/json\<close> decodes it
  into the element the slice holds at that index, so the two differ on an answer in which
  a later \<open>content\<close> member follows one that held objects. The properties below that
  depend on the decoded text are about answers with one \<open>content\<close> member, or whose
  \<open>content\<close> members are all empty lists.
\<close>

definition to_upper :: "char \<Rightarrow> char" where
  "to_upper c =
     (let n = (of_char c :: nat) in if 97 \<le> n \<and> n \<le> 122 then char_of (n - 32) else c)"

definition fold_name :: "string \<Rightarrow> string" where
  "fold_name s = map to_upper s"

definition saveError :: "go_error option \<Rightarrow> go_error \<Rightarrow> go_error option" where
  "saveError saved err = (case saved of None \<Rightarrow> Some err | Some first \<Rightarrow> Some first)"

fun decode_segment_members ::
  "env \<Rightarrow> (string \<times> json) list \<Rightarrow> string \<times> go_error option \<Rightarrow> string \<times> go_error option" where
  "decode_segment_members e [] st = st"
| "decode_segment_members e ((k, v) # kvs) (text, saved) =
     decode_segment_members e kvs
       (if fold_name k = fold_name ''text'' then
          (case v of
             JStr s \<Rightarrow> (s, saved)
           | JNull \<Rightarrow> (text, saved)
           | _ \<Rightarrow> (text, saveError saved (type_error_text e ''Content.Text'')))
        else (text, saved))"

definition decode_segment :: "env \<Rightarrow> json \<Rightarrow> go_error option \<Rightarrow> string \<times> go_error option" where
  "decode_segment e v saved =
     (case v of
        JObj kvs \<Rightarrow> decode_segment_members e kvs ('''', saved)
      | JNull \<Rightarrow> ('''', saved)
      | _ \<Rightarrow> ('''', saveError saved (type_error_text e ''Content'')))"

fun decode_segments :: "env \<Rightarrow> json list \<Rightarrow> go_error option \<Rightarrow> string list \<times> go_error option" where
  "decode_segments e [] saved = ([], saved)"
| "decode_segments e (v # vs) saved =
     (case decode_segment e v saved of
        (text, saved') \<Rightarrow>
          (case decode_segments e vs saved' of
             (texts, saved'') \<Rightarrow> (text # texts, saved'')))"

fun decode_response_members ::
  "env \<Rightarrow> (string \<times> json) list \<Rightarrow> string list \<times> go_error option \<Rightarrow> string list \<times> go_error option" where
  "decode_response_members e [] st = st"
| "decode_response_members e ((k, v) # kvs) (content, saved) =
     decode_response_members e kvs
       (if fold_name k = fold_name ''content'' then
          (case v of
             JArr vs \<Rightarrow> decode_segments e vs saved
           | JNull \<Rightarrow> ([], saved)
           | _ \<Rightarrow> (content, saveError saved (type_error_text e ''Content'')))
        else (content, saved))"

definition unmarshal_response :: "env \<Rightarrow> string \<Rightarrow> go_error + string list" where
  "unmarshal_response e text =
     (case json_parse e text of
        Inl err \<Rightarrow> Inl err
      | Inr (JObj kvs) \<Rightarrow>
          (case decode_response_members e kvs ([], None) of
             (content, None) \<Rightarrow> Inr content
           | (content, Some err) \<Rightarrow> Inl err)
      | Inr JNull \<Rightarrow> Inr []
      | Inr _ \<Rightarrow> Inl (type_error_text e ''''))"

subsection \<open>\<open>getAnthropicSummary\<close> and \<open>main\<close>, revision C\<close>

definition prompt_C :: "string \<Rightarrow> string \<Rightarrow> string \<Rightarrow> string" where
  "prompt_C processedEmbeddings compressedContent content =
     ''Here are the Git changes with their semantic embeddings:\<newline>\<newline>Embeddings: ''
     @ processedEmbeddings @ ''\<newline>\<newline>Compressed Changes:\<newline>'' @ compressedContent
     @ ''\<newline>\<newline>Original Content Summary:\<newline>'' @ content
     @ ''\<newline>\<newline>Based on these changes, provide a concise summary of the modifications:''"

definition request_C :: "env \<Rightarrow> string \<Rightarrow> http_request" where
  "request_C e prompt =
     \<lparr>url = anthropicAPIURL,
      headers = [(''Content-Type'', ''application/json''),
                 (''x-api-key'', api_key_env e),
                 (''anthropic-version'', ''2023-06-01'')],
      body = MessagesBody ''claude-3-5-sonnet-latest'' 4096 [(''user'', prompt)]\<rparr>"

definition printf :: "string \<Rightarrow> unit io" where
  "printf s = ([Stdout s], Returned ())"

text \<open>
  \<open>getAnthropicSummary\<close> from its second step on (lines 297 to 360), with the two
  variables that are live there as arguments.
\<close>

definition summarize_compressed :: "env \<Rightarrow> string \<Rightarrow> string \<Rightarrow> string io" where
  "summarize_compressed e compressedContent content =
     bind (getEmbeddings e compressedContent) (\<lambda>embedded.
     case embedded of
       Inl err \<Rightarrow>
         bind (printf (''Error getting embeddings: '' @ err @ ''\<newline>'')) (\<lambda>_.
         ([], Returned fallback_summary))
     | Inr embeddings \<Rightarrow>
         (let processedEmbeddings = processEmbeddings e embeddings;
              req = request_C e (prompt_C processedEmbeddings compressedContent content) in
          case http_do e req of
            Inl err \<Rightarrow>
              ([HttpPost req, Stdout (''Error calling Anthropic API: '' @ err @ ''\<newline>'')],
               Returned fallback_summary)
          | Inr text \<Rightarrow>
              bind ([HttpPost req], Returned ()) (\<lambda>_.
              bind (printf (''Anthropic API Response: '' @ text @ ''\<newline>'')) (\<lambda>_.
              case unmarshal_response e text of
                Inl err \<Rightarrow>
                  bind (printf (''Error unmarshaling response: '' @ err @ ''\<newline>'')) (\<lambda>_.
                  ([], Returned fallback_summary))
              | Inr result_Content \<Rightarrow>
                  (if length result_Content > 0 then ([], Returned (result_Content ! 0))
                   else ([], Returned fallback_summary))))))"

definition getAnthropicSummary_C :: "env \<Rightarrow> string \<Rightarrow> string io" where
  "getAnthropicSummary_C e content =
     bind (compressLogs e content) (\<lambda>compressed.
     bind (case compressed of
             Inl err \<Rightarrow>
               bind (printf (''Error compressing logs: '' @ err @ ''\<newline>'')) (\<lambda>_.
               ([], Returned content))
           | Inr compressedContent \<Rightarrow> ([], Returned compressedContent)) (\<lambda>compressedContent.
     summarize_compressed e compressedContent content))"

definition main_C :: "env \<Rightarrow> unit io" where
  "main_C e =
     bind (getCommandOutput e ''git'' [''rev-parse'', ''--abbrev-ref'', ''HEAD'']) (\<lambda>currentBranch.
     bind (getCommandOutput e ''git'' [''rev-parse'', ''--abbrev-ref'', ''origin/HEAD'']) (\<lambda>queried.
     let baseBranch = (if length (os_args e) > 1 then os_args e ! 1
                       else TrimPrefix queried ''origin/'') in
     bind (getCommandOutput e ''git''
             [''log'', baseBranch @ ''..'' @ currentBranch, ''--pretty=format:%h - %s'']) (\<lambda>commits.
     bind (getCommandOutput e ''git''
             [''diff'', range_arg baseBranch currentBranch]) (\<lambda>detailedDiff.
     bind (getCommandOutput e ''git''
             [''diff'', ''--stat'', range_arg baseBranch currentBranch]) (\<lambda>changesOverview.
     let content = ''Detailed Changes:\<newline>'' @ detailedDiff
                   @ ''\<newline>\<newline>Changes Overview:\<newline>'' @ changesOverview in
     bind (if length commits > 0 then getAnthropicSummary_C e content
           else ([], Returned '''')) (\<lambda>summary.
     println (report_C currentBranch commits changesOverview summary)))))))"

section \<open>Specification\<close>

subsection \<open>Predicates on runs\<close>

text \<open>An event that starts a subprocess which then succeeds.\<close>

definition cmd_succeeded :: "env \<Rightarrow> event \<Rightarrow> bool" where
  "cmd_succeeded e ev =
     (case ev of
        Exec n a \<Rightarrow> (case cmd_output e n a of Inr out \<Rightarrow> True | Inl err \<Rightarrow> False)
      | _ \<Rightarrow> False)"

text \<open>
  A run stopped by the failure of the command \<open>name args\<close>: before it only commands that
  succeeded were started, its error is logged, nothing happens after the log, and the
  process exits with status 1.
\<close>

definition aborted_by :: "env \<Rightarrow> string \<Rightarrow> string list \<Rightarrow> go_error \<Rightarrow> 'a io \<Rightarrow> bool" where
  "aborted_by e name args err m =
     (\<exists>pre. m = (pre @ [Exec name args,
                          Stdout (''Error executing command: '' @ err @ ''\<newline>'')], Exited 1)
        \<and> list_all (cmd_succeeded e) pre)"

text \<open>
  The run came to its end and the last thing it printed is the report, with \<open>summary\<close> in
  the summary field.
\<close>

definition printed_report ::
  "(string \<Rightarrow> string \<Rightarrow> string \<Rightarrow> string \<Rightarrow> string) \<Rightarrow> string \<Rightarrow> unit io \<Rightarrow> bool" where
  "printed_report report summary run =
     (snd run = Returned () \<and>
      (\<exists>pre currentBranch commits changesOverview.
         fst run = pre @ [Stdout (report currentBranch commits changesOverview summary
                                  @ ''\<newline>'')]))"

text \<open>A run that returns has printed a report.\<close>

definition reports_on_return ::
  "(string \<Rightarrow> string \<Rightarrow> string \<Rightarrow> string \<Rightarrow> string) \<Rightarrow> unit io \<Rightarrow> bool" where
  "reports_on_return report run =
     (snd run = Returned () \<longrightarrow> (\<exists>summary. printed_report report summary run))"

subsection \<open>Sections of the report\<close>

text \<open>
  \<open>after_first needle s\<close> is what follows the first occurrence of \<open>needle\<close> in \<open>s\<close>, and
  \<open>sections_in_order hs s\<close> holds when the texts \<open>hs\<close> occur in \<open>s\<close> one after the other, in
  the order of the list, without overlap.
\<close>

fun strip_prefix :: "string \<Rightarrow> string \<Rightarrow> string option" where
  "strip_prefix [] s = Some s"
| "strip_prefix (p # ps) [] = None"
| "strip_prefix (p # ps) (c # cs) = (if p = c then strip_prefix ps cs else None)"

fun after_first :: "string \<Rightarrow> string \<Rightarrow> string option" where
  "after_first needle [] = strip_prefix needle []"
| "after_first needle (c # cs) =
     (case strip_prefix needle (c # cs) of
        Some rest \<Rightarrow> Some rest
      | None \<Rightarrow> after_first needle cs)"

fun sections_in_order :: "string list \<Rightarrow> string \<Rightarrow> bool" where
  "sections_in_order [] s = True"
| "sections_in_order (h # hs) s =
     (case after_first h s of None \<Rightarrow> False | Some rest \<Rightarrow> sections_in_order hs rest)"

subsection \<open>Commands of a run\<close>

fun commands_of :: "event list \<Rightarrow> (string \<times> string list) list" where
  "commands_of [] = []"
| "commands_of (Exec n a # t) = (n, a) # commands_of t"
| "commands_of (Stdout s # t) = commands_of t"
| "commands_of (HttpPost r # t) = commands_of t"

text \<open>The commands of revision A, and of revisions B and C, for given branch names.\<close>

definition git_commands_A :: "string \<Rightarrow> string \<Rightarrow> (string \<times> string list) list" where
  "git_commands_A currentBranch baseBranch =
     [(''git'', [''rev-parse'', ''--abbrev-ref'', ''HEAD'']),
      (''git'', [''rev-parse'', ''--abbrev-ref'', ''origin/HEAD'']),
      (''git'', [''log'', baseBranch @ ''..'' @ currentBranch, ''--pretty=format:%h - %s'']),
      (''git'', [''diff'', ''--stat'', baseBranch @ ''..'' @ currentBranch])]"

definition git_commands_BC :: "string \<Rightarrow> string \<Rightarrow> (string \<times> string list) list" where
  "git_commands_BC currentBranch baseBranch =
     [(''git'', [''rev-parse'', ''--abbrev-ref'', ''HEAD'']),
      (''git'', [''rev-parse'', ''--abbrev-ref'', ''origin/HEAD'']),
      (''git'', [''log'', baseBranch @ ''..'' @ currentBranch, ''--pretty=format:%h - %s'']),
      (''git'', [''diff'', baseBranch @ ''..'' @ currentBranch]),
      (''git'', [''diff'', ''--stat'', baseBranch @ ''..'' @ currentBranch])]"

text \<open>
  The commands a run started are the first \<open>k\<close> of \<open>cmds\<close>, in that order, with \<open>k\<close> at
  least \<open>least\<close>; they are all of \<open>cmds\<close> unless the run was stopped by a failing command.
\<close>

definition ran_prefix :: "nat \<Rightarrow> (string \<times> string list) list \<Rightarrow> 'a io \<Rightarrow> bool" where
  "ran_prefix least cmds run =
     (\<exists>k. least \<le> k \<and> k \<le> length cmds \<and> commands_of (fst run) = take k cmds
          \<and> (snd run \<noteq> Exited 1 \<longrightarrow> k = length cmds))"

subsection \<open>Answers of the remote service\<close>

text \<open>
  What revision C returns once the remote service has answered with \<open>text\<close> (lines 345 to
  360, without the log line).
\<close>

definition read_answer_C :: "env \<Rightarrow> string \<Rightarrow> string" where
  "read_answer_C e text =
     (case unmarshal_response e text of
        Inl err \<Rightarrow> fallback_summary
      | Inr result_Content \<Rightarrow>
          if length result_Content > 0 then result_Content ! 0 else fallback_summary)"




subsection \<open>Reading a \<open>float64\<close>\<close>

text \<open>
  Bits 52 to 62 of a \<open>float64\<close> are its exponent. It is all ones exactly for the
  infinities and the NaNs (\<open>math.IsInf\<close>, \<open>math.IsNaN\<close>); a NaN also has a fraction, the
  low 52 bits, that is not zero.
\<close>

definition exponent_bits :: "float64 \<Rightarrow> nat" where
  "exponent_bits x = unat (take_bit 11 (drop_bit 52 x))"

definition is_finite :: "float64 \<Rightarrow> bool" where
  "is_finite x = (exponent_bits x \<noteq> 2047)"

definition is_nan :: "float64 \<Rightarrow> bool" where
  "is_nan x = (exponent_bits x = 2047 \<and> take_bit 52 x \<noteq> 0)"

text \<open>
  The language leaves float arithmetic to the implementation: it may fuse
  \<open>magnitude += v * v\<close> into one operation, and the result of a division by zero is
  "not specified beyond the IEEE 754 standard". So the operations are fields of \<open>env\<close>,
  and a property that needs more than their names says what it assumes. This is what
  IEEE-754 fixes for the operand \<open>+0\<close>, whatever the rounding, fused or not:
  \<open>0 + 0 * 0 = 0\<close>, \<open>sqrt 0 = 0\<close>, \<open>0 / 0\<close> is a NaN, and no quotient by \<open>0\<close> is finite
  (it is an infinity when the dividend is neither zero nor a NaN).
\<close>

definition ieee_at_zero :: "env \<Rightarrow> bool" where
  "ieee_at_zero e =
     (add_square e 0 0 = 0 \<and> fsqrt e 0 = 0 \<and> is_nan (fdiv e 0 0)
      \<and> (\<forall>a. \<not> is_finite (fdiv e a 0)))"

subsection \<open>The number a \<open>float64\<close> stands for\<close>

text \<open>
  IEEE-754 binary64: bit 63 is the sign, bits 52 to 62 the exponent \<open>e\<close>, the low 52 bits
  the fraction \<open>f\<close>. A finite value is \<open>(2 ^ 52 + f) * 2 ^ (e - 1075)\<close> when \<open>1 \<le> e\<close> and
  \<open>f * 2 ^ (- 1074)\<close> when \<open>e = 0\<close>, negated when the sign bit is set. \<open>float_value\<close> is read
  only where \<open>is_finite\<close> holds.
\<close>

definition fraction_bits :: "float64 \<Rightarrow> nat" where
  "fraction_bits x = unat (take_bit 52 x)"

definition is_negative :: "float64 \<Rightarrow> bool" where
  "is_negative x = (drop_bit 63 x \<noteq> 0)"

definition float_value :: "float64 \<Rightarrow> real" where
  "float_value x =
     (let e = exponent_bits x;
          m = (if e = 0 then fraction_bits x else 2 ^ 52 + fraction_bits x);
          q = (if e = 0 then 1 else e);
          magnitude = (if 1075 \<le> q then real (m * 2 ^ (q - 1075)) else real m / 2 ^ (1075 - q))
      in if is_negative x then - magnitude else magnitude)"

text \<open>The Euclidean norm of the numbers a vector of \<open>float64\<close> stands for.\<close>

definition sum_of_squares :: "float64 list \<Rightarrow> real" where
  "sum_of_squares xs = sum_list (map (\<lambda>x. (float_value x)\<^sup>2) xs)"

definition norm_of :: "float64 list \<Rightarrow> real" where
  "norm_of xs = sqrt (sum_of_squares xs)"

text \<open>
  \<open>rounds_within e u embeddings\<close>: the elements are finite, and each operation that
  \<open>processEmbeddings\<close> performs on \<open>embeddings\<close> returns a finite \<open>float64\<close> within relative
  error \<open>u\<close> of the exact result on its operands. The operations are the additions of a
  square to the running sum in the first loop (\<open>accumulates_within\<close>, from the running sum
  \<open>m\<close> on), the square root, and the divisions of the second loop (\<open>quotient_within\<close>). With
  binary64 arithmetic rounding to nearest this holds for a \<open>u\<close> of about \<open>2 ^ (- 52)\<close> as
  long as no operation overflows or underflows.
\<close>

fun accumulates_within :: "env \<Rightarrow> real \<Rightarrow> float64 \<Rightarrow> float64 list \<Rightarrow> bool" where
  "accumulates_within e u m [] = True"
| "accumulates_within e u m (v # vs) =
     (is_finite (add_square e m v)
      \<and> \<bar>float_value (add_square e m v) - (float_value m + (float_value v)\<^sup>2)\<bar>
          \<le> u * \<bar>float_value m + (float_value v)\<^sup>2\<bar>
      \<and> accumulates_within e u (add_square e m v) vs)"

definition quotient_within :: "env \<Rightarrow> real \<Rightarrow> float64 \<Rightarrow> float64 \<Rightarrow> bool" where
  "quotient_within e u m x =
     (is_finite (fdiv e x m)
      \<and> \<bar>float_value (fdiv e x m) - float_value x / float_value m\<bar>
          \<le> u * \<bar>float_value x / float_value m\<bar>)"

definition rounds_within :: "env \<Rightarrow> real \<Rightarrow> float64 list \<Rightarrow> bool" where
  "rounds_within e u xs =
     (list_all is_finite xs
      \<and> accumulates_within e u 0 xs
      \<and> is_finite (magnitude_of e xs)
      \<and> \<bar>float_value (magnitude_of e xs) - sqrt (float_value (sum_squares e 0 xs))\<bar>
          \<le> u * sqrt (float_value (sum_squares e 0 xs))
      \<and> list_all (quotient_within e u (magnitude_of e xs)) xs)"

subsection \<open>A concrete environment\<close>

text \<open>
  A repository on branch \<open>feature\<close> whose remote default branch is \<open>main\<close>; the answer of
  \<open>git log\<close> and the answers of the network are arguments.
\<close>

definition demo_space :: "char \<Rightarrow> bool" where
  "demo_space c = (c = CHR '' '' \<or> c = CHR ''\<newline>'' \<or> c = CHR 0x09 \<or> c = CHR 0x0D)"

definition demo_trim :: "string \<Rightarrow> string" where
  "demo_trim s = rev (dropWhile demo_space (rev (dropWhile demo_space s)))"

definition demo_git :: "(go_error + string) \<Rightarrow> string \<Rightarrow> string list \<Rightarrow> go_error + string" where
  "demo_git log_answer name args =
     (if name \<noteq> ''git'' then Inl ''executable file not found in $PATH''
      else if args = [''rev-parse'', ''--abbrev-ref'', ''HEAD''] then Inr ''feature\<newline>''
      else if args = [''rev-parse'', ''--abbrev-ref'', ''origin/HEAD''] then Inr ''origin/main\<newline>''
      else if take 1 args = [''log''] then log_answer
      else if take 2 args = [''diff'', ''--stat''] then Inr '' main.go | 2 +-\<newline>''
      else if take 1 args = [''diff''] then Inr ''diff --git a/main.go b/main.go\<newline>''
      else Inl ''exit status 1'')"

definition answer_X :: string where
  \<open>answer_X = ''{"content":[{"text":"X"}]}''\<close>

definition answer_empty :: string where
  \<open>answer_empty = ''{"content":[]}''\<close>

definition answer_short :: string where
  \<open>answer_short = ''{"response":"short","done":true}''\<close>

definition answer_zeros :: string where
  \<open>answer_zeros = ''{"embedding":[0,0]}''\<close>

definition demo_parse :: "string \<Rightarrow> go_error + json" where
  "demo_parse text =
     (if text = answer_X then Inr (JObj [(''content'', JArr [JObj [(''text'', JStr ''X'')]])])
      else if text = answer_empty then Inr (JObj [(''content'', JArr [])])
      else Inl ''invalid character'')"

definition demo_net ::
  "(go_error + string) \<Rightarrow> (go_error + string) \<Rightarrow> (go_error + string) \<Rightarrow>
   http_request \<Rightarrow> go_error + string" where
  "demo_net remote generated embedded req =
     (if url req = anthropicAPIURL then remote
      else if url req = ollamaCompletionURL then generated
      else if url req = ollamaAPIURL then embedded
      else Inl ''connection refused'')"

text \<open>
  The float unit of this environment knows the operand \<open>+0\<close> only, where it answers as
  IEEE-754 does; everywhere else it answers with a quiet NaN.
\<close>

definition demo_nan :: float64 where
  "demo_nan = 0x7FF8000000000000"

definition demo_env ::
  "string list \<Rightarrow> (go_error + string) \<Rightarrow> (http_request \<Rightarrow> go_error + string) \<Rightarrow> env" where
  "demo_env args log_answer net =
     \<lparr>os_args = args,
      api_key_env = ''secret'',
      cmd_output = demo_git log_answer,
      http_do = net,
      trim_space = demo_trim,
      json_parse = demo_parse,
      type_error_text = (\<lambda>field. ''json: cannot unmarshal into '' @ field),
      decode_completion =
        (\<lambda>text. if text = answer_short then Inr \<lparr>Response = ''short'', Done = True\<rparr>
               else Inl ''EOF''),
      decode_embedding = (\<lambda>text. if text = answer_zeros then Inr [0, 0] else Inl ''EOF''),
      marshal_floats = (\<lambda>xs. Inl ''json: unsupported value''),
      base64_encode = (\<lambda>bytes. bytes),
      add_square = (\<lambda>m v. if m = 0 \<and> v = 0 then 0 else demo_nan),
      fdiv = (\<lambda>a b. demo_nan),
      fsqrt = (\<lambda>a. if a = 0 then 0 else demo_nan)\<rparr>"

text \<open>The run in which \<open>git log\<close> exits with status 128.\<close>

definition demo_failing :: env where
  "demo_failing =
     demo_env [''prgpt''] (Inl ''exit status 128'') (demo_net (Inr answer_X) (Inl ''x'') (Inl ''x''))"

text \<open>
  Runs in which every command succeeds and one commit is listed. In \<open>demo_ok\<close> the remote
  service answers with the text \<open>X\<close>, in \<open>demo_empty\<close> with an empty content list, in
  \<open>demo_malformed\<close> with a page that is not JSON.
\<close>

definition demo_ok :: env where
  "demo_ok =
     demo_env [''prgpt''] (Inr ''abc1234 - fix\<newline>'')
       (demo_net (Inr answer_X) (Inr answer_short) (Inr answer_zeros))"



text \<open>
  The same repository with the argument \<open>develop\<close>, with no commit between the two
  branches, and with the local model service down.
\<close>

definition demo_override :: env where
  "demo_override =
     demo_env [''prgpt'', ''develop''] (Inr ''abc1234 - fix\<newline>'')
       (demo_net (Inr answer_X) (Inr answer_short) (Inr answer_zeros))"

definition demo_no_commits :: env where
  "demo_no_commits =
     demo_env [''prgpt''] (Inr '''')
       (demo_net (Inr answer_X) (Inr answer_short) (Inr answer_zeros))"

definition demo_no_compression :: env where
  "demo_no_compression =
     demo_env [''prgpt''] (Inr ''abc1234 - fix\<newline>'')
       (demo_net (Inr answer_X) (Inl ''connection refused'') (Inr answer_zeros))"

text \<open>
  \<open>demo_ieee\<close> is \<open>demo_ok\<close> with a float unit that knows more operands. On these it
  answers as binary64 arithmetic rounding to nearest does, whether \<open>magnitude += v * v\<close> is
  fused or not; everywhere else it answers with a quiet NaN.
  \<^item> \<open>add_square\<close>: \<open>0 + 0 * 0 = 0\<close>; \<open>0 + v * v\<close> is \<open>+Inf\<close> when \<open>v\<close> is finite with an
    exponent of at least 1535, since then \<open>2 ^ 512 \<le> \<bar>v\<bar>\<close> and the square is at least
    \<open>2 ^ 1024\<close>, above every finite \<open>float64\<close>; \<open>+Inf + v * v\<close> is \<open>+Inf\<close> for every finite
    \<open>v\<close>; \<open>0 + 3 * 3 = 9\<close> and \<open>9 + 4 * 4 = 25\<close>.
  \<^item> \<open>fsqrt\<close>: \<open>0\<close>, \<open>+Inf\<close> and \<open>25\<close> have the roots \<open>0\<close>, \<open>+Inf\<close> and \<open>5\<close>.
  \<^item> \<open>fdiv\<close>: a finite number divided by \<open>+Inf\<close> is the zero of its sign; \<open>3 / 5\<close> and
    \<open>4 / 5\<close> are \<open>0x3FE3333333333333\<close> and \<open>0x3FE999999999999A\<close>.
\<close>

definition demo_inf :: float64 where
  "demo_inf = 0x7FF0000000000000"

definition demo_add_square :: "float64 \<Rightarrow> float64 \<Rightarrow> float64" where
  "demo_add_square m v =
     (if m = 0 \<and> v = 0 then 0
      else if m = 0 \<and> is_finite v \<and> 1535 \<le> exponent_bits v then demo_inf
      else if m = demo_inf \<and> is_finite v then demo_inf
      else if m = 0 \<and> v = 0x4008000000000000 then 0x4022000000000000
      else if m = 0x4022000000000000 \<and> v = 0x4010000000000000 then 0x4039000000000000
      else demo_nan)"

definition demo_fsqrt :: "float64 \<Rightarrow> float64" where
  "demo_fsqrt a =
     (if a = 0 then 0
      else if a = demo_inf then demo_inf
      else if a = 0x4039000000000000 then 0x4014000000000000
      else demo_nan)"

definition demo_fdiv :: "float64 \<Rightarrow> float64 \<Rightarrow> float64" where
  "demo_fdiv a b =
     (if b = demo_inf \<and> is_finite a then push_bit 63 (drop_bit 63 a)
      else if a = 0x4008000000000000 \<and> b = 0x4014000000000000 then 0x3FE3333333333333
      else if a = 0x4010000000000000 \<and> b = 0x4014000000000000 then 0x3FE999999999999A
      else demo_nan)"

definition demo_ieee :: env where
  "demo_ieee =
     demo_ok\<lparr>add_square := demo_add_square, fdiv := demo_fdiv, fsqrt := demo_fsqrt\<rparr>"

section \<open>Properties\<close>

subsection \<open>Evaluation and sequencing\<close>

lemmas demo_simps =
  demo_env_def demo_git_def demo_trim_def demo_space_def demo_net_def demo_parse_def
  answer_X_def answer_empty_def answer_short_def answer_zeros_def anthropicAPIURL_def ollamaCompletionURL_def ollamaAPIURL_def

lemmas program_simps =
  bind_def getCommandOutput_def TrimPrefix_def range_arg_def println_def printf_def
  getAnthropicSummary_AB_def request_AB_def unmarshal_map_def extract_text_AB_def map_index_def
  getAnthropicSummary_C_def summarize_compressed_def compressLogs_def getEmbeddings_def
  http_Post_def processEmbeddings_def request_C_def unmarshal_response_def decode_segment_def
  saveError_def fold_name_def to_upper_def char_of_def bit_Suc_0_iff

lemma bind_gco_fail:
  "cmd_output e n a = Inl err \<Longrightarrow>
   bind (getCommandOutput e n a) f =
     ([Exec n a, Stdout (''Error executing command: '' @ err @ ''\<newline>'')], Exited 1)"
  by (simp add: bind_def getCommandOutput_def)

lemma bind_gco_ok:
  "cmd_output e n a = Inr out \<Longrightarrow>
   bind (getCommandOutput e n a) f =
     (Exec n a # fst (f (trim_space e out)), snd (f (trim_space e out)))"
  by (simp add: bind_def getCommandOutput_def split: prod.splits)

lemma fst_bind:
  "fst (bind m f) = (case snd m of Returned a \<Rightarrow> fst m @ fst (f a) | _ \<Rightarrow> fst m)"
  by (cases m) (auto simp: bind_def split: outcome.splits prod.splits)

lemma snd_bind:
  "snd (bind m f) =
     (case snd m of Returned a \<Rightarrow> snd (f a) | Exited k \<Rightarrow> Exited k | Panicked \<Rightarrow> Panicked)"
  by (cases m) (auto simp: bind_def split: outcome.splits prod.splits)

subsection \<open>Only the command runner starts subprocesses\<close>

lemma no_exec_AB: "Exec n a \<notin> set (fst (getAnthropicSummary_AB e c))"
  by (simp add: getAnthropicSummary_AB_def Let_def split: sum.splits)

lemma no_exec_getEmbeddings: "Exec n a \<notin> set (fst (getEmbeddings e c))"
  by (simp add: getEmbeddings_def Let_def http_Post_def split: sum.splits)

lemma no_exec_compressLogs: "Exec n a \<notin> set (fst (compressLogs e c))"
  by (simp add: compressLogs_def Let_def http_Post_def split: sum.splits)

lemma no_exec_summarize_compressed: "Exec n a \<notin> set (fst (summarize_compressed e c c'))"
  unfolding summarize_compressed_def
  by (auto simp add: fst_bind Let_def printf_def no_exec_getEmbeddings
      split: sum.splits outcome.splits if_splits)

lemma no_exec_C: "Exec n a \<notin> set (fst (getAnthropicSummary_C e c))"
  unfolding getAnthropicSummary_C_def
  by (auto simp add: fst_bind printf_def no_exec_compressLogs no_exec_summarize_compressed
      split: sum.splits outcome.splits)

subsection \<open>A failing command ends the run\<close>

lemma abort_step:
  assumes fails: "cmd_output e name args = Inl err"
    and rest: "\<And>out. cmd_output e n a = Inr out \<Longrightarrow>
                 Exec name args \<in> set (fst (f (trim_space e out))) \<longrightarrow>
                 aborted_by e name args err (f (trim_space e out))"
  shows "Exec name args \<in> set (fst (bind (getCommandOutput e n a) f)) \<longrightarrow>
         aborted_by e name args err (bind (getCommandOutput e n a) f)"
proof (cases "cmd_output e n a")
  case (Inl err')
  show ?thesis
  proof
    assume "Exec name args \<in> set (fst (bind (getCommandOutput e n a) f))"
    with Inl have same: "n = name \<and> a = args"
      by (simp add: bind_gco_fail)
    with Inl fails have "err' = err"
      by simp
    with Inl same show "aborted_by e name args err (bind (getCommandOutput e n a) f)"
      by (simp add: bind_gco_fail aborted_by_def)
  qed
next
  case (Inr out)
  show ?thesis
  proof
    assume mem: "Exec name args \<in> set (fst (bind (getCommandOutput e n a) f))"
    from Inr fails have "\<not> (n = name \<and> a = args)"
      by auto
    with mem Inr have "Exec name args \<in> set (fst (f (trim_space e out)))"
      by (auto simp add: bind_gco_ok)
    with rest [OF Inr] obtain pre where
      pre: "f (trim_space e out) =
              (pre @ [Exec name args,
                      Stdout (''Error executing command: '' @ err @ ''\<newline>'')], Exited 1)"
        "list_all (cmd_succeeded e) pre"
      by (auto simp: aborted_by_def)
    have "bind (getCommandOutput e n a) f =
            ((Exec n a # pre) @ [Exec name args,
               Stdout (''Error executing command: '' @ err @ ''\<newline>'')], Exited 1)"
      using Inr pre(1) by (simp add: bind_gco_ok)
    moreover have "list_all (cmd_succeeded e) (Exec n a # pre)"
      using pre(2) Inr by (simp add: cmd_succeeded_def)
    ultimately show "aborted_by e name args err (bind (getCommandOutput e n a) f)"
      unfolding aborted_by_def by blast
  qed
qed

lemma main_A_abort:
  assumes "cmd_output e name args = Inl err"
  shows "Exec name args \<in> set (fst (main_A e)) \<longrightarrow> aborted_by e name args err (main_A e)"
  unfolding main_A_def Let_def
  apply (intro abort_step [OF assms])
  apply (simp add: fst_bind println_def no_exec_AB split: outcome.splits)
  done

lemma main_B_abort:
  assumes "cmd_output e name args = Inl err"
  shows "Exec name args \<in> set (fst (main_B e)) \<longrightarrow> aborted_by e name args err (main_B e)"
  unfolding main_B_def Let_def
  apply (intro abort_step [OF assms])
  apply (simp add: fst_bind println_def no_exec_AB split: outcome.splits)
  done

lemma main_C_abort:
  assumes "cmd_output e name args = Inl err"
  shows "Exec name args \<in> set (fst (main_C e)) \<longrightarrow> aborted_by e name args err (main_C e)"
  unfolding main_C_def Let_def
  apply (intro abort_step [OF assms])
  apply (simp add: fst_bind println_def no_exec_C split: outcome.splits)
  done

lemma aborted_by_prints_only_the_log:
  assumes "aborted_by e name args err m" and "Stdout s \<in> set (fst m)"
  shows "s = ''Error executing command: '' @ err @ ''\<newline>''"
proof -
  from assms(1) obtain pre where
    m: "m = (pre @ [Exec name args,
                    Stdout (''Error executing command: '' @ err @ ''\<newline>'')], Exited 1)"
    and ok: "list_all (cmd_succeeded e) pre"
    by (auto simp: aborted_by_def)
  from ok have "Stdout s \<notin> set pre"
    by (auto simp: list_all_iff cmd_succeeded_def)
  with assms(2) m show ?thesis
    by auto
qed

text \<open>
  Claim C3. When the subprocess of a call of \<open>getCommandOutput\<close> fails (\<open>cmd.Output\<close>
  returns an error, for a non-zero exit status as for a failure to start), the call logs
  the error and exits with status 1 instead of returning. In each revision of \<open>main\<close>, a
  run that starts such a command ends there: every command before it succeeded, the
  failed one is started once, the log line is the last event and the only output, so no
  report is printed, and the exit status is 1.
\<close>

theorem command_failure_is_fatal:
  assumes "cmd_output e name args = Inl err"
  shows "getCommandOutput e name args =
           ([Exec name args, Stdout (''Error executing command: '' @ err @ ''\<newline>'')],
            Exited 1)
       \<and> (\<forall>run \<in> {main_A e, main_B e, main_C e}.
            Exec name args \<in> set (fst run) \<longrightarrow>
              aborted_by e name args err run
              \<and> (\<forall>s. Stdout s \<in> set (fst run) \<longrightarrow>
                     s = ''Error executing command: '' @ err @ ''\<newline>''))"
proof -
  have "getCommandOutput e name args =
          ([Exec name args, Stdout (''Error executing command: '' @ err @ ''\<newline>'')],
           Exited 1)"
    using assms by (simp add: getCommandOutput_def)
  moreover have "Exec name args \<in> set (fst (main_A e)) \<longrightarrow>
      aborted_by e name args err (main_A e)
      \<and> (\<forall>s. Stdout s \<in> set (fst (main_A e)) \<longrightarrow>
             s = ''Error executing command: '' @ err @ ''\<newline>'')"
    using main_A_abort [OF assms] aborted_by_prints_only_the_log by blast
  moreover have "Exec name args \<in> set (fst (main_B e)) \<longrightarrow>
      aborted_by e name args err (main_B e)
      \<and> (\<forall>s. Stdout s \<in> set (fst (main_B e)) \<longrightarrow>
             s = ''Error executing command: '' @ err @ ''\<newline>'')"
    using main_B_abort [OF assms] aborted_by_prints_only_the_log by blast
  moreover have "Exec name args \<in> set (fst (main_C e)) \<longrightarrow>
      aborted_by e name args err (main_C e)
      \<and> (\<forall>s. Stdout s \<in> set (fst (main_C e)) \<longrightarrow>
             s = ''Error executing command: '' @ err @ ''\<newline>'')"
    using main_C_abort [OF assms] aborted_by_prints_only_the_log by blast
  ultimately show ?thesis
    by simp
qed

theorem command_failure_is_fatal_witness:
  "cmd_output demo_failing ''git'' [''log'', ''main..feature'', ''--pretty=format:%h - %s'']
     = Inl ''exit status 128''
   \<and> Exec ''git'' [''log'', ''main..feature'', ''--pretty=format:%h - %s'']
       \<in> set (fst (main_C demo_failing))
   \<and> aborted_by demo_failing ''git'' [''log'', ''main..feature'', ''--pretty=format:%h - %s'']
       ''exit status 128'' (main_C demo_failing)
   \<and> snd (main_C demo_failing) = Exited 1"
proof -
  have fails: "cmd_output demo_failing ''git''
      [''log'', ''main..feature'', ''--pretty=format:%h - %s''] = Inl ''exit status 128''"
    by (simp add: demo_failing_def demo_simps)
  have started: "Exec ''git'' [''log'', ''main..feature'', ''--pretty=format:%h - %s'']
      \<in> set (fst (main_C demo_failing))"
    by (simp add: demo_failing_def main_C_def demo_simps program_simps)
  from command_failure_is_fatal [OF fails] started
  have aborted: "aborted_by demo_failing ''git''
      [''log'', ''main..feature'', ''--pretty=format:%h - %s''] ''exit status 128''
      (main_C demo_failing)"
    by simp
  then have "snd (main_C demo_failing) = Exited 1"
    by (auto simp: aborted_by_def)
  with fails started aborted show ?thesis
    by simp
qed

subsection \<open>The two loops of \<open>processEmbeddings\<close>\<close>

lemma normalize_loop_eq:
  "i + length vs \<le> length out \<Longrightarrow>
   normalize_loop e m i vs out =
     take i out @ map (\<lambda>v. fdiv e v m) vs @ drop (i + length vs) out"
proof (induction vs arbitrary: i out)
  case Nil
  then show ?case by simp
next
  case (Cons v vs)
  then have "i < length out"
    by simp
  then have "take (Suc i) (out[i := fdiv e v m]) = take i out @ [fdiv e v m]"
    by (simp add: take_Suc_conv_app_nth)
  with Cons show ?case
    by simp
qed

lemma normalize_eq_map:
  "normalized_embeddings e xs = map (\<lambda>v. fdiv e v (magnitude_of e xs)) xs"
  by (simp add: normalized_embeddings_def normalize_loop_eq)

lemma sum_squares_zeros:
  "add_square e 0 0 = 0 \<Longrightarrow> sum_squares e 0 (replicate n 0) = 0"
  by (induction n) simp_all

text \<open>
  Claim C10. The normalized sequence has the length of the input, and its element \<open>i\<close> is
  the quotient of the input's element \<open>i\<close> by the magnitude of the whole input: it depends
  on nothing else.
\<close>

theorem normalize_is_pointwise:
  "length (normalized_embeddings e embeddings) = length embeddings
   \<and> (\<forall>i < length embeddings.
        normalized_embeddings e embeddings ! i = fdiv e (embeddings ! i) (magnitude_of e embeddings))"
  by (simp add: normalize_eq_map)

theorem normalize_is_pointwise_witness:
  "(1 :: nat) < length [0x4008000000000000, 0x4010000000000000 :: float64]
   \<and> length (normalized_embeddings demo_ok [0x4008000000000000, 0x4010000000000000]) = 2
   \<and> normalized_embeddings demo_ok [0x4008000000000000, 0x4010000000000000] ! 1
       = fdiv demo_ok 0x4010000000000000
           (magnitude_of demo_ok [0x4008000000000000, 0x4010000000000000])"
  using normalize_is_pointwise [of demo_ok "[0x4008000000000000, 0x4010000000000000]"]
  by simp

text \<open>
  Claim C7. \<open>processEmbeddings\<close> divides by the magnitude without looking at it
  (\<open>normalize_eq_map\<close> holds for every input). With float arithmetic that follows
  IEEE-754 at zero, the vector of \<open>n > 0\<close> zeros has magnitude zero, and every element of
  its normalized sequence is \<open>0 / 0\<close>, a NaN, which is not finite; and whenever the
  magnitude of an input comes out as zero, no element of its normalized sequence is
  finite.
\<close>

theorem zero_magnitude_division_is_not_guarded:
  assumes "ieee_at_zero e" and "0 < n"
  shows "magnitude_of e (replicate n 0) = 0
       \<and> normalized_embeddings e (replicate n 0) = replicate n (fdiv e 0 0)
       \<and> normalized_embeddings e (replicate n 0) \<noteq> []
       \<and> (\<forall>x \<in> set (normalized_embeddings e (replicate n 0)). is_nan x \<and> \<not> is_finite x)
       \<and> (\<forall>embeddings. magnitude_of e embeddings = 0 \<longrightarrow>
              (\<forall>x \<in> set (normalized_embeddings e embeddings). \<not> is_finite x))"
proof -
  from assms(1) have laws:
    "add_square e 0 0 = 0" "fsqrt e 0 = 0" "is_nan (fdiv e 0 0)"
    "\<And>a. \<not> is_finite (fdiv e a 0)"
    by (simp_all add: ieee_at_zero_def)
  have mag: "magnitude_of e (replicate n 0) = 0"
    by (simp add: magnitude_of_def sum_squares_zeros laws)
  have norm: "normalized_embeddings e (replicate n 0) = replicate n (fdiv e 0 0)"
    by (simp add: normalize_eq_map mag map_replicate)
  have every: "\<forall>x \<in> set (normalized_embeddings e embeddings). \<not> is_finite x"
    if "magnitude_of e embeddings = 0" for embeddings
    using that laws(4) by (auto simp: normalize_eq_map)
  from mag norm laws(3,4) assms(2) every show ?thesis
    by simp
qed

theorem zero_magnitude_division_is_not_guarded_witness:
  "ieee_at_zero demo_ok \<and> (0 :: nat) < 2
   \<and> magnitude_of demo_ok [0, 0] = 0
   \<and> normalized_embeddings demo_ok [0, 0] = [demo_nan, demo_nan]
   \<and> \<not> is_finite demo_nan"
proof -
  have laws: "ieee_at_zero demo_ok"
    by (simp add: ieee_at_zero_def demo_ok_def demo_env_def demo_nan_def is_nan_def
        is_finite_def exponent_bits_def)
  have two: "\<And>x :: float64. replicate 2 x = [x, x]"
    by (simp add: numeral_2_eq_2)
  have div: "fdiv demo_ok 0 0 = demo_nan"
    by (simp add: demo_ok_def demo_env_def)
  have "\<not> is_finite demo_nan"
    by (simp add: is_finite_def exponent_bits_def demo_nan_def)
  with zero_magnitude_division_is_not_guarded [OF laws, of 2] laws two div show ?thesis
    by simp
qed

subsection \<open>What \<open>getAnthropicSummary\<close> returns after an answer\<close>

lemma extract_X:
  "extract_text_AB [(''content'', JArr [JObj [(''text'', JStr X)]])] = Returned X"
  by (simp add: extract_text_AB_def map_index_def)

lemma extract_panics_on_non_object:
  "extract_text_AB [(''content'', JArr [JStr s])] = Panicked"
  by (simp add: extract_text_AB_def map_index_def)

lemma AB_answer:
  "http_do e (request_AB e content) = Inr text \<Longrightarrow>
   getAnthropicSummary_AB e content = ([HttpPost (request_AB e content)], extract_text_AB (unmarshal_map e text))"
  by (simp add: getAnthropicSummary_AB_def)

lemma AB_called:
  "HttpPost req \<in> set (fst (getAnthropicSummary_AB e content)) \<longleftrightarrow> req = request_AB e content"
  by (auto simp add: getAnthropicSummary_AB_def Let_def split: sum.splits)

lemma url_simps:
  "ollamaAPIURL \<noteq> anthropicAPIURL" "ollamaCompletionURL \<noteq> anthropicAPIURL"
  by (simp_all add: ollamaAPIURL_def ollamaCompletionURL_def anthropicAPIURL_def)

lemma getEmbeddings_local:
  "HttpPost req \<in> set (fst (getEmbeddings e c)) \<Longrightarrow> url req = ollamaAPIURL"
  by (auto simp: getEmbeddings_def Let_def http_Post_def split: sum.splits)

lemma compressLogs_local:
  "HttpPost req \<in> set (fst (compressLogs e c)) \<Longrightarrow> url req = ollamaCompletionURL"
  by (auto simp: compressLogs_def Let_def http_Post_def split: sum.splits)

lemma getEmbeddings_returns: "\<exists>r. snd (getEmbeddings e c) = Returned r"
  by (auto simp: getEmbeddings_def Let_def split: sum.splits)

lemma compressLogs_returns: "\<exists>r. snd (compressLogs e c) = Returned r"
  by (auto simp: compressLogs_def Let_def split: sum.splits)

lemma summarize_compressed_answer:
  assumes "HttpPost req \<in> set (fst (summarize_compressed e cc c))"
    and "url req = anthropicAPIURL" and "http_do e req = Inr text"
  shows "snd (summarize_compressed e cc c) = Returned (read_answer_C e text)"
proof -
  obtain t r where emb: "getEmbeddings e cc = (t, Returned r)"
    using getEmbeddings_returns [of e cc] by (cases "getEmbeddings e cc") auto
  have local: "HttpPost req \<notin> set t"
    using getEmbeddings_local [of req e cc] emb assms(2) url_simps by auto
  show ?thesis
    using assms local
    unfolding summarize_compressed_def emb
    by (auto simp: bind_def printf_def Let_def read_answer_C_def request_C_def split: sum.splits if_splits)
qed

lemma C_answer:
  assumes "HttpPost req \<in> set (fst (getAnthropicSummary_C e c))"
    and "url req = anthropicAPIURL" and "http_do e req = Inr text"
  shows "snd (getAnthropicSummary_C e c) = Returned (read_answer_C e text)"
proof -
  obtain t r where cl: "compressLogs e c = (t, Returned r)"
    using compressLogs_returns [of e c] by (cases "compressLogs e c") auto
  have local: "HttpPost req \<notin> set t"
    using compressLogs_local [of req e c] cl assms(2) url_simps by auto
  show ?thesis
  proof (cases r)
    case (Inl err)
    with assms(1) local cl have "HttpPost req \<in> set (fst (summarize_compressed e c c))"
      by (auto simp: getAnthropicSummary_C_def bind_def printf_def split: prod.splits)
    from summarize_compressed_answer [OF this assms(2,3)] Inl cl show ?thesis
      by (auto simp: getAnthropicSummary_C_def bind_def printf_def split: prod.splits)
  next
    case (Inr cc)
    with assms(1) local cl have "HttpPost req \<in> set (fst (summarize_compressed e cc c))"
      by (auto simp: getAnthropicSummary_C_def bind_def printf_def split: prod.splits)
    from summarize_compressed_answer [OF this assms(2,3)] Inr cl show ?thesis
      by (auto simp: getAnthropicSummary_C_def bind_def printf_def split: prod.splits)
  qed
qed







lemma read_X:
  assumes "json_parse e text = Inr (JObj [(''content'', JArr [JObj [(''text'', JStr X)]])])"
  shows "read_answer_C e text = X"
  using assms by (simp add: read_answer_C_def unmarshal_response_def decode_segment_def)

subsection \<open>From the remote call to the report\<close>

lemma through_command:
  assumes "\<And>out. cmd_output e n a = Inr out \<Longrightarrow>
             HttpPost req \<in> set (fst (f (trim_space e out))) \<longrightarrow> P (f (trim_space e out))"
    and "\<And>t r. P (t, r) \<Longrightarrow> P (Exec n a # t, r)"
  shows "HttpPost req \<in> set (fst (bind (getCommandOutput e n a) f)) \<longrightarrow>
         P (bind (getCommandOutput e n a) f)"
proof (cases "cmd_output e n a")
  case (Inl err)
  then show ?thesis by (simp add: bind_gco_fail)
next
  case (Inr out)
  show ?thesis
  proof
    assume "HttpPost req \<in> set (fst (bind (getCommandOutput e n a) f))"
    with Inr have "HttpPost req \<in> set (fst (f (trim_space e out)))"
      by (simp add: bind_gco_ok)
    with assms(1) [OF Inr] have "P (f (trim_space e out))" by simp
    then have "P (fst (f (trim_space e out)), snd (f (trim_space e out)))" by simp
    from assms(2) [OF this] Inr show "P (bind (getCommandOutput e n a) f)"
      by (simp add: bind_gco_ok)
  qed
qed

lemma printed_report_Cons: "printed_report rep s (t, r) \<Longrightarrow> printed_report rep s (ev # t, r)"
  unfolding printed_report_def
  by (metis append_Cons fst_conv snd_conv)


lemma finish_prints:
  assumes "snd step = Returned s"
  shows "printed_report report s (bind step (\<lambda>summary. println (report cur commits ov summary)))"
proof -
  obtain t where step: "step = (t, Returned s)"
    using assms by (cases step) auto
  show ?thesis
    unfolding step
    by (auto simp add: bind_def println_def printed_report_def)
qed





lemma tail_C:
  "HttpPost req \<in> set (fst (bind (if length commits > 0 then getAnthropicSummary_C e content
           else ([], Returned ''''))
                              (\<lambda>summary. println (report_C cur commits ov summary)))) \<longrightarrow>
   (\<exists>c. HttpPost req \<in> set (fst (getAnthropicSummary_C e c)) \<and>
      (\<forall>s. snd (getAnthropicSummary_C e c) = Returned s \<longrightarrow>
           printed_report report_C s
             (bind (if length commits > 0 then getAnthropicSummary_C e content
           else ([], Returned ''''))
                (\<lambda>summary. println (report_C cur commits ov summary)))))"
proof (cases "length commits > 0")
  case False
  then show ?thesis
    by (simp add: fst_bind println_def)
next
  case True
  show ?thesis
  proof
    assume "HttpPost req \<in> set (fst (bind (if length commits > 0 then getAnthropicSummary_C e content
           else ([], Returned ''''))
                              (\<lambda>summary. println (report_C cur commits ov summary))))"
    with True have "HttpPost req \<in> set (fst (getAnthropicSummary_C e content))"
      by (auto simp: fst_bind println_def split: outcome.splits)
    moreover have "\<And>s. snd (getAnthropicSummary_C e content) = Returned s \<Longrightarrow>
        printed_report report_C s
          (bind (getAnthropicSummary_C e content)
             (\<lambda>summary. println (report_C cur commits ov summary)))"
      by (rule finish_prints)
    ultimately show "\<exists>c. HttpPost req \<in> set (fst (getAnthropicSummary_C e c)) \<and>
      (\<forall>s. snd (getAnthropicSummary_C e c) = Returned s \<longrightarrow>
           printed_report report_C s
             (bind (if length commits > 0 then getAnthropicSummary_C e content
           else ([], Returned ''''))
                (\<lambda>summary. println (report_C cur commits ov summary))))"
      using True by auto
  qed
qed

lemma main_C_after_call:
  "HttpPost req \<in> set (fst (main_C e)) \<longrightarrow>
      (\<exists>c. HttpPost req \<in> set (fst (getAnthropicSummary_C e c)) \<and>
           (\<forall>s. snd (getAnthropicSummary_C e c) = Returned s \<longrightarrow> printed_report report_C s (main_C e)))"
  unfolding main_C_def Let_def
  apply (intro through_command)
  apply (rule tail_C)
     apply (blast intro: printed_report_Cons)+
  done


text \<open>
  Claim C4. When the body of the remote answer is the JSON
  \<open>{"content":[{"text":"X"}]}\<close>, \<open>getAnthropicSummary\<close> returns \<open>X\<close>: in revisions A and
  B whenever the call gets that answer, in revision C whenever the remote service is
  called at all (the local embedding step did not fail) and gives that answer.
\<close>

theorem first_text_is_the_summary:
  assumes "json_parse e text = Inr (JObj [(''content'', JArr [JObj [(''text'', JStr X)]])])"
  shows "(http_do e (request_AB e content) = Inr text \<longrightarrow>
            getAnthropicSummary_AB e content = ([HttpPost (request_AB e content)], Returned X))
       \<and> (\<forall>req. HttpPost req \<in> set (fst (getAnthropicSummary_C e content))
                \<and> url req = anthropicAPIURL \<and> http_do e req = Inr text \<longrightarrow>
              snd (getAnthropicSummary_C e content) = Returned X)"
proof -
  from assms have "unmarshal_map e text = [(''content'', JArr [JObj [(''text'', JStr X)]])]"
    by (simp add: unmarshal_map_def)
  then have "http_do e (request_AB e content) = Inr text \<longrightarrow>
            getAnthropicSummary_AB e content = ([HttpPost (request_AB e content)], Returned X)"
    by (simp add: AB_answer extract_X)
  moreover have "\<forall>req. HttpPost req \<in> set (fst (getAnthropicSummary_C e content))
                \<and> url req = anthropicAPIURL \<and> http_do e req = Inr text \<longrightarrow>
              snd (getAnthropicSummary_C e content) = Returned X"
    using C_answer [of _ e content "text"] read_X [OF assms] by auto
  ultimately show ?thesis ..
qed

theorem first_text_is_the_summary_witness:
  "json_parse demo_ok answer_X = Inr (JObj [(''content'', JArr [JObj [(''text'', JStr ''X'')]])])
   \<and> http_do demo_ok (request_AB demo_ok ''diff'') = Inr answer_X
   \<and> getAnthropicSummary_AB demo_ok ''diff''
       = ([HttpPost (request_AB demo_ok ''diff'')], Returned ''X'')
   \<and> HttpPost (request_C demo_ok (prompt_C (processEmbeddings demo_ok [0, 0]) ''short'' ''diff''))
       \<in> set (fst (getAnthropicSummary_C demo_ok ''diff''))
   \<and> snd (getAnthropicSummary_C demo_ok ''diff'') = Returned ''X''"
proof -
  have parsed: "json_parse demo_ok answer_X
      = Inr (JObj [(''content'', JArr [JObj [(''text'', JStr ''X'')]])])"
    by (simp add: demo_ok_def demo_env_def demo_parse_def)
  have answered: "\<And>req. url req = anthropicAPIURL \<Longrightarrow> http_do demo_ok req = Inr answer_X"
    by (simp add: demo_ok_def demo_env_def demo_net_def)
  have called: "HttpPost (request_C demo_ok
        (prompt_C (processEmbeddings demo_ok [0, 0]) ''short'' ''diff''))
      \<in> set (fst (getAnthropicSummary_C demo_ok ''diff''))"
    by (simp add: demo_ok_def demo_simps program_simps)
  have remote: "url (request_AB demo_ok ''diff'') = anthropicAPIURL"
    "url (request_C demo_ok (prompt_C (processEmbeddings demo_ok [0, 0]) ''short'' ''diff''))
       = anthropicAPIURL"
    by (simp_all add: request_AB_def request_C_def)
  from first_text_is_the_summary [OF parsed, of "''diff''"] parsed called remote answered
  show ?thesis
    by blast
qed




subsection \<open>The report and its sections\<close>

lemma reports_step:
  assumes "\<And>out. cmd_output e n a = Inr out \<Longrightarrow> reports_on_return report (f (trim_space e out))"
  shows "reports_on_return report (bind (getCommandOutput e n a) f)"
proof (cases "cmd_output e n a")
  case (Inl err)
  then show ?thesis
    by (simp add: bind_gco_fail reports_on_return_def)
next
  case (Inr out)
  from assms [OF Inr] have "reports_on_return report (fst (f (trim_space e out)), snd (f (trim_space e out)))"
    by simp
  then have "reports_on_return report (Exec n a # fst (f (trim_space e out)), snd (f (trim_space e out)))"
    unfolding reports_on_return_def using printed_report_Cons by fastforce
  with Inr show ?thesis
    by (simp add: bind_gco_ok)
qed

lemma reports_finish:
  "reports_on_return report (bind step (\<lambda>summary. println (report cur commits ov summary)))"
proof (cases "snd step")
  case (Returned s)
  from finish_prints [OF this] show ?thesis
    unfolding reports_on_return_def by blast
next
  case (Exited k)
  then show ?thesis
    by (simp add: reports_on_return_def snd_bind)
next
  case Panicked
  then show ?thesis
    by (simp add: reports_on_return_def snd_bind)
qed

lemma main_A_reports: "reports_on_return report_AB (main_A e)"
  unfolding main_A_def Let_def
  by (intro reports_step reports_finish)

lemma main_B_reports: "reports_on_return report_AB (main_B e)"
  unfolding main_B_def Let_def
  by (intro reports_step reports_finish)

lemma main_C_reports: "reports_on_return report_C (main_C e)"
  unfolding main_C_def Let_def
  by (intro reports_step reports_finish)

lemma strip_prefix_append: "strip_prefix h (h @ r) = Some r"
  by (induction h) auto

lemma strip_prefix_Some: "strip_prefix h s = Some r \<Longrightarrow> s = h @ r"
  by (induction h s rule: strip_prefix.induct) (auto split: if_splits)

lemma after_first_Some: "after_first h s = Some r \<Longrightarrow> \<exists>p. s = p @ h @ r"
proof (induction s)
  case Nil
  then show ?case by (auto dest: strip_prefix_Some)
next
  case (Cons c cs)
  show ?case
  proof (cases "strip_prefix h (c # cs)")
    case None
    with Cons.prems have "after_first h cs = Some r" by simp
    with Cons.IH obtain p where "cs = p @ h @ r" by blast
    then have "c # cs = (c # p) @ h @ r" by simp
    then show ?thesis by blast
  next
    case (Some r')
    with Cons.prems have "r' = r" by simp
    with Some have "c # cs = [] @ h @ r" by (auto dest: strip_prefix_Some)
    then show ?thesis by blast
  qed
qed

lemma after_first_append: "\<exists>q. after_first h (p @ h @ r) = Some (q @ r)"
proof (induction p)
  case Nil
  show ?case
  proof (cases "h @ r")
    case Nil
    then show ?thesis by simp
  next
    case (Cons c cs)
    have "strip_prefix h (h @ r) = Some r" by (rule strip_prefix_append)
    with Cons have "after_first h ([] @ h @ r) = Some ([] @ r)" by simp
    then show ?thesis by blast
  qed
next
  case (Cons c p)
  show ?case
  proof (cases "strip_prefix h (c # p @ h @ r)")
    case None
    with Cons.IH show ?thesis by simp
  next
    case (Some r')
    then have eq: "c # p @ h @ r = h @ r'" by (rule strip_prefix_Some)
    then have "length r \<le> length r'"
      by (metis add_le_cancel_left le_add2 length_Cons length_append le_SucI add.commute)
    have "r' = drop (length (c # p @ h @ r) - length r') (c # p @ h @ r)"
      using eq by (metis append_eq_conv_conj diff_add_inverse2 length_append)
    moreover have "r = drop (length (c # p @ h @ r) - length r) (c # p @ h @ r)"
      by (metis append_Cons append_assoc append_eq_conv_conj diff_add_inverse2 length_append)
    ultimately obtain q where "r' = q @ r"
      using \<open>length r \<le> length r'\<close>
      by (metis append_take_drop_id diff_le_mono2 drop_drop le_add_diff_inverse2)
    with Some show ?thesis by simp
  qed
qed

lemma sections_in_order_prepend:
  "sections_in_order hs r \<Longrightarrow> sections_in_order hs (q @ r)"
proof (induction hs arbitrary: q r)
  case Nil
  show ?case by simp
next
  case (Cons h hs)
  from Cons.prems obtain r1 where r1: "after_first h r = Some r1" "sections_in_order hs r1"
    by (auto split: option.splits)
  from after_first_Some [OF r1(1)] obtain p where "r = p @ h @ r1" by blast
  then have "q @ r = (q @ p) @ h @ r1" by simp
  with after_first_append [of h "q @ p" r1] obtain q' where "after_first h (q @ r) = Some (q' @ r1)"
    by auto
  with Cons.IH [OF r1(2)] show ?case by simp
qed

lemma sections_in_order_Cons:
  assumes "sections_in_order hs r"
  shows "sections_in_order (h # hs) (p @ h @ r)"
proof -
  obtain q where "after_first h (p @ h @ r) = Some (q @ r)"
    using after_first_append by blast
  with sections_in_order_prepend [OF assms] show ?thesis by simp
qed

lemma report_AB_sections:
  "sections_in_order [''## Branch:'', ''## Commits:'', ''## Changes Overview:'', ''## Summary:'']
     (report_AB currentBranch commits changesOverview summary)"
proof -
  have "report_AB currentBranch commits changesOverview summary =
      ''# Pull Request Summary\<newline>\<newline>'' @ ''## Branch:'' @
      ('' '' @ currentBranch @ ''\<newline>\<newline>'') @ ''## Commits:'' @
      (''\<newline>'' @ commits @ ''\<newline>\<newline>'') @ ''## Changes Overview:'' @
      (''\<newline>'' @ changesOverview @ ''\<newline>\<newline>'') @ ''## Summary:'' @
      (''\<newline>'' @ summary @ ''\<newline>\<newline>## Detailed Description:\<newline><!-- Please provide a detailed description of the changes in this PR -->\<newline>'')"
    by (simp add: report_AB_def)
  then show ?thesis
    by (simp only: sections_in_order_Cons sections_in_order.simps(1))
qed

lemma report_C_sections:
  "sections_in_order [''## Branch:'', ''## Commits:'', ''## Changes Overview:'', ''# Summary:'']
     (report_C currentBranch commits changesOverview summary)"
proof -
  have "report_C currentBranch commits changesOverview summary =
      ''# Pull Request Summary\<newline>\<newline>'' @ ''## Branch:'' @
      ('' '' @ currentBranch @ ''\<newline>\<newline>'') @ ''## Commits:'' @
      (''\<newline>'' @ commits @ ''\<newline>\<newline>'') @ ''## Changes Overview:'' @
      (''\<newline>'' @ changesOverview @ ''\<newline>\<newline>'') @ ''# Summary:'' @
      (''\<newline>'' @ summary @ ''\<newline>\<newline>## Detailed Description:\<newline><!-- Please provide a detailed description of the changes in this PR -->\<newline>'')"
    by (simp add: report_C_def)
  then show ?thesis
    by (simp only: sections_in_order_Cons sections_in_order.simps(1))
qed

text \<open>
  Claim C6. Whatever the branch name, the commit list, the change statistics and the
  summary are, the report holds the headers \<open>## Branch:\<close>, \<open>## Commits:\<close>,
  \<open>## Changes Overview:\<close> and the header of the summary section, one after the other in
  that order; the last header is \<open>## Summary:\<close> in revisions A and B and \<open># Summary:\<close> in
  revision C. Every run of \<open>main\<close> that returns has printed such a report last.
\<close>

theorem report_sections_in_order:
  "sections_in_order [''## Branch:'', ''## Commits:'', ''## Changes Overview:'', ''## Summary:'']
     (report_AB currentBranch commits changesOverview summary)
   \<and> sections_in_order [''## Branch:'', ''## Commits:'', ''## Changes Overview:'', ''# Summary:'']
     (report_C currentBranch commits changesOverview summary)
   \<and> reports_on_return report_AB (main_A e)
   \<and> reports_on_return report_AB (main_B e)
   \<and> reports_on_return report_C (main_C e)"
  using report_AB_sections report_C_sections main_A_reports main_B_reports main_C_reports
  by blast

theorem report_sections_in_order_witness:
  "snd (main_C demo_ok) = Returned ()
   \<and> (\<exists>summary. printed_report report_C summary (main_C demo_ok))
   \<and> snd (main_B demo_ok) = Returned ()
   \<and> (\<exists>summary. printed_report report_AB summary (main_B demo_ok))
   \<and> sections_in_order [''## Branch:'', ''## Commits:'', ''## Changes Overview:'', ''## Summary:'']
       (report_AB ''feature'' ''abc1234 - fix'' ''main.go | 2 +-'' ''X'')"
proof -
  have returned: "snd (main_C demo_ok) = Returned ()" "snd (main_B demo_ok) = Returned ()"
    by (simp_all add: main_C_def main_B_def demo_ok_def demo_simps program_simps)
  from report_sections_in_order
    [of "''feature''" "''abc1234 - fix''" "''main.go | 2 +-''" "''X''" demo_ok] returned
  show ?thesis
    by (simp add: reports_on_return_def)
qed

subsection \<open>The base branch\<close>

lemma commands_of_no_exec:
  "(\<And>n a. Exec n a \<notin> set t) \<Longrightarrow> commands_of t = []"
  by (induction t rule: commands_of.induct) auto

lemma ran_prefix_step:
  assumes "\<And>out. cmd_output e n a = Inr out \<Longrightarrow> ran_prefix (least - 1) cmds (f (trim_space e out))"
    and "least \<le> 1"
  shows "ran_prefix least ((n, a) # cmds) (bind (getCommandOutput e n a) f)"
proof (cases "cmd_output e n a")
  case (Inl err)
  have "commands_of (fst (bind (getCommandOutput e n a) f)) = take 1 ((n, a) # cmds)"
    using Inl by (simp add: bind_gco_fail)
  moreover have "snd (bind (getCommandOutput e n a) f) = Exited 1"
    using Inl by (simp add: bind_gco_fail)
  ultimately show ?thesis
    unfolding ran_prefix_def using assms(2)
    by (metis One_nat_def Suc_leI length_Cons zero_less_Suc)
next
  case (Inr out)
  from assms(1) [OF Inr] obtain k where k: "least - 1 \<le> k" "k \<le> length cmds"
     "commands_of (fst (f (trim_space e out))) = take k cmds"
     "snd (f (trim_space e out)) \<noteq> Exited 1 \<longrightarrow> k = length cmds"
    unfolding ran_prefix_def by blast
  have "commands_of (fst (bind (getCommandOutput e n a) f)) = take (Suc k) ((n, a) # cmds)"
    using Inr k(3) by (simp add: bind_gco_ok)
  moreover have "snd (bind (getCommandOutput e n a) f) \<noteq> Exited 1 \<longrightarrow> Suc k = length ((n, a) # cmds)"
    using Inr k(4) by (simp add: bind_gco_ok)
  moreover have "least \<le> Suc k" "Suc k \<le> length ((n, a) # cmds)"
    using k(1,2) by simp_all
  ultimately show ?thesis
    unfolding ran_prefix_def by blast
qed

lemma ran_prefix_step_known:
  assumes "cmd_output e n a = Inr out"
    and "ran_prefix (least - 1) cmds (f (trim_space e out))"
  shows "ran_prefix least ((n, a) # cmds) (bind (getCommandOutput e n a) f)"
proof -
  from assms(2) obtain k where k: "least - 1 \<le> k" "k \<le> length cmds"
     "commands_of (fst (f (trim_space e out))) = take k cmds"
     "snd (f (trim_space e out)) \<noteq> Exited 1 \<longrightarrow> k = length cmds"
    unfolding ran_prefix_def by blast
  have "commands_of (fst (bind (getCommandOutput e n a) f)) = take (Suc k) ((n, a) # cmds)"
    using assms(1) k(3) by (simp add: bind_gco_ok)
  moreover have "snd (bind (getCommandOutput e n a) f) \<noteq> Exited 1 \<longrightarrow> Suc k = length ((n, a) # cmds)"
    using assms(1) k(4) by (simp add: bind_gco_ok)
  moreover have "least \<le> Suc k" "Suc k \<le> length ((n, a) # cmds)"
    using k(1,2) by simp_all
  ultimately show ?thesis
    unfolding ran_prefix_def by blast
qed

lemma ran_prefix_done:
  assumes "\<And>n a. Exec n a \<notin> set (fst step)" and "least = 0"
  shows "ran_prefix least [] (bind step (\<lambda>summary. println (report summary)))"
proof -
  have "\<And>n a. Exec n a \<notin> set (fst (bind step (\<lambda>summary. println (report summary))))"
    using assms(1) by (auto simp: fst_bind println_def split: outcome.splits)
  then have "commands_of (fst (bind step (\<lambda>summary. println (report summary)))) = []"
    by (rule commands_of_no_exec)
  with assms(2) show ?thesis
    by (simp add: ran_prefix_def)
qed

lemma no_exec_step_B:
  "Exec n a \<notin> set (fst (if length commits > 2
           then bind (println ''Printing out content'') (\<lambda>_. ([], Returned ''''))
           else getAnthropicSummary_AB e content))"
  by (simp add: no_exec_AB bind_def println_def)

lemma no_exec_step_C:
  "Exec n a \<notin> set (fst (if length commits > 0 then getAnthropicSummary_C e content
           else ([], Returned '''')))"
  by (simp add: no_exec_C)

text \<open>
  Claim C8, as amended. Once the two queries have succeeded, revisions B and C run the
  commit-log command and the two diff commands, in that order and as far as they succeed,
  on the range from the base branch to the current branch, where the base branch is the
  first argument when there is one and the queried default, without its prefix
  \<open>origin/\<close>, otherwise. Revision A runs its log and diff commands on the queried default
  whatever the arguments are.
\<close>

theorem base_branch_in_commands:
  assumes "cmd_output e ''git'' [''rev-parse'', ''--abbrev-ref'', ''HEAD''] = Inr o1"
    and "cmd_output e ''git'' [''rev-parse'', ''--abbrev-ref'', ''origin/HEAD''] = Inr o2"
  shows "ran_prefix 3
           (git_commands_BC (trim_space e o1)
              (if length (os_args e) > 1 then os_args e ! 1
               else TrimPrefix (trim_space e o2) ''origin/''))
           (main_B e)
       \<and> ran_prefix 3
           (git_commands_BC (trim_space e o1)
              (if length (os_args e) > 1 then os_args e ! 1
               else TrimPrefix (trim_space e o2) ''origin/''))
           (main_C e)
       \<and> ran_prefix 3
           (git_commands_A (trim_space e o1) (TrimPrefix (trim_space e o2) ''origin/''))
           (main_A e)"
proof (intro conjI)
  show "ran_prefix 3
           (git_commands_BC (trim_space e o1)
              (if length (os_args e) > 1 then os_args e ! 1
               else TrimPrefix (trim_space e o2) ''origin/''))
           (main_B e)"
    unfolding main_B_def Let_def git_commands_BC_def range_arg_def
    apply (rule ran_prefix_step_known [OF assms(1)])
    apply (rule ran_prefix_step_known [OF assms(2)])
    apply (intro ran_prefix_step ran_prefix_done no_exec_step_B)
    apply simp_all
    done
  show "ran_prefix 3
           (git_commands_BC (trim_space e o1)
              (if length (os_args e) > 1 then os_args e ! 1
               else TrimPrefix (trim_space e o2) ''origin/''))
           (main_C e)"
    unfolding main_C_def Let_def git_commands_BC_def range_arg_def
    apply (rule ran_prefix_step_known [OF assms(1)])
    apply (rule ran_prefix_step_known [OF assms(2)])
    apply (intro ran_prefix_step ran_prefix_done no_exec_step_C)
    apply simp_all
    done
  show "ran_prefix 3
           (git_commands_A (trim_space e o1) (TrimPrefix (trim_space e o2) ''origin/''))
           (main_A e)"
    unfolding main_A_def Let_def git_commands_A_def range_arg_def
    apply (rule ran_prefix_step_known [OF assms(1)])
    apply (rule ran_prefix_step_known [OF assms(2)])
    apply (intro ran_prefix_step ran_prefix_done no_exec_AB)
    apply simp_all
    done
qed


theorem base_branch_in_commands_witness:
  "cmd_output demo_override ''git'' [''rev-parse'', ''--abbrev-ref'', ''HEAD''] = Inr ''feature\<newline>''
   \<and> cmd_output demo_override ''git'' [''rev-parse'', ''--abbrev-ref'', ''origin/HEAD'']
       = Inr ''origin/main\<newline>''
   \<and> ran_prefix 3 (git_commands_BC ''feature'' ''develop'') (main_B demo_override)
   \<and> ran_prefix 3 (git_commands_BC ''feature'' ''develop'') (main_C demo_override)
   \<and> ran_prefix 3 (git_commands_A ''feature'' ''main'') (main_A demo_override)
   \<and> ran_prefix 3 (git_commands_BC ''feature'' ''main'') (main_C demo_ok)"
proof -
  have queries:
    "cmd_output demo_override ''git'' [''rev-parse'', ''--abbrev-ref'', ''HEAD''] = Inr ''feature\<newline>''"
    "cmd_output demo_override ''git'' [''rev-parse'', ''--abbrev-ref'', ''origin/HEAD'']
       = Inr ''origin/main\<newline>''"
    "cmd_output demo_ok ''git'' [''rev-parse'', ''--abbrev-ref'', ''HEAD''] = Inr ''feature\<newline>''"
    "cmd_output demo_ok ''git'' [''rev-parse'', ''--abbrev-ref'', ''origin/HEAD'']
       = Inr ''origin/main\<newline>''"
    by (simp_all add: demo_override_def demo_ok_def demo_env_def demo_git_def)
  have trimmed:
    "trim_space demo_override ''feature\<newline>'' = ''feature''"
    "TrimPrefix (trim_space demo_override ''origin/main\<newline>'') ''origin/'' = ''main''"
    "trim_space demo_ok ''feature\<newline>'' = ''feature''"
    "TrimPrefix (trim_space demo_ok ''origin/main\<newline>'') ''origin/'' = ''main''"
    by (simp_all add: demo_override_def demo_ok_def demo_env_def demo_trim_def demo_space_def
        TrimPrefix_def)
  have args: "1 < length (os_args demo_override)" "os_args demo_override ! 1 = ''develop''"
    "\<not> 1 < length (os_args demo_ok)"
    by (simp_all add: demo_override_def demo_ok_def demo_env_def)
  from base_branch_in_commands [OF queries(1,2)] base_branch_in_commands [OF queries(3,4)]
    queries(1,2) trimmed args
  show ?thesis
    by simp
qed

text \<open>
  Claim C8 as stated fails for revision A, which never reads \<open>os.Args\<close>: called with the
  argument \<open>develop\<close>, it compares with the queried default \<open>main\<close>.
\<close>

theorem revision_A_ignores_the_argument:
  "1 < length (os_args demo_override) \<and> os_args demo_override ! 1 = ''develop''
   \<and> commands_of (fst (main_A demo_override)) = git_commands_A ''feature'' ''main''
   \<and> (''git'', [''log'', ''develop..feature'', ''--pretty=format:%h - %s''])
       \<notin> set (commands_of (fst (main_A demo_override)))"
  by (simp add: main_A_def demo_override_def git_commands_A_def demo_simps program_simps)

subsection \<open>When the summary is asked for\<close>

lemma main_C_run:
  fixes e o1 o2 o3 o4 o5
  defines "currentBranch \<equiv> trim_space e o1"
    and "baseBranch \<equiv> (if length (os_args e) > 1 then os_args e ! 1
                        else TrimPrefix (trim_space e o2) ''origin/'')"
  assumes c1: "cmd_output e ''git'' [''rev-parse'', ''--abbrev-ref'', ''HEAD''] = Inr o1"
    and c2: "cmd_output e ''git'' [''rev-parse'', ''--abbrev-ref'', ''origin/HEAD''] = Inr o2"
    and c3: "cmd_output e ''git''
           [''log'', baseBranch @ ''..'' @ currentBranch, ''--pretty=format:%h - %s''] = Inr o3"
    and c4: "cmd_output e ''git'' [''diff'', range_arg baseBranch currentBranch] = Inr o4"
    and c5: "cmd_output e ''git'' [''diff'', ''--stat'', range_arg baseBranch currentBranch] = Inr o5"
  shows "main_C e =
       bind ([Exec ''git'' [''rev-parse'', ''--abbrev-ref'', ''HEAD''],
              Exec ''git'' [''rev-parse'', ''--abbrev-ref'', ''origin/HEAD''],
              Exec ''git'' [''log'', baseBranch @ ''..'' @ currentBranch, ''--pretty=format:%h - %s''],
              Exec ''git'' [''diff'', range_arg baseBranch currentBranch],
              Exec ''git'' [''diff'', ''--stat'', range_arg baseBranch currentBranch]], Returned ())
         (\<lambda>_. bind (if length (trim_space e o3) > 0
                      then getAnthropicSummary_C e
                             (''Detailed Changes:\<newline>'' @ trim_space e o4
                              @ ''\<newline>\<newline>Changes Overview:\<newline>'' @ trim_space e o5)
                      else ([], Returned ''''))
                (\<lambda>summary. println (report_C currentBranch (trim_space e o3) (trim_space e o5) summary)))"
proof -
  have ok: "bind (getCommandOutput e n a) f = bind ([Exec n a], Returned ()) (\<lambda>_. f (trim_space e out))"
    if "cmd_output e n a = Inr out" for n a out and f :: "string \<Rightarrow> unit io"
    using that by (simp add: bind_def getCommandOutput_def)
  have join: "bind ([a], Returned ()) (\<lambda>_. bind (t', Returned ()) f) = bind (a # t', Returned ()) f"
    for a t' and f :: "unit \<Rightarrow> unit io"
    by (simp add: bind_def split: prod.splits)
  note cs = c1 c2 c3 [unfolded currentBranch_def baseBranch_def]
    c4 [unfolded currentBranch_def baseBranch_def] c5 [unfolded currentBranch_def baseBranch_def]
  show ?thesis
    unfolding main_C_def Let_def currentBranch_def baseBranch_def
    by (simp only: cs [THEN ok] join)
qed

lemma main_B_run:
  fixes e o1 o2 o3 o4 o5
  defines "currentBranch \<equiv> trim_space e o1"
    and "baseBranch \<equiv> (if length (os_args e) > 1 then os_args e ! 1
                        else TrimPrefix (trim_space e o2) ''origin/'')"
  assumes c1: "cmd_output e ''git'' [''rev-parse'', ''--abbrev-ref'', ''HEAD''] = Inr o1"
    and c2: "cmd_output e ''git'' [''rev-parse'', ''--abbrev-ref'', ''origin/HEAD''] = Inr o2"
    and c3: "cmd_output e ''git''
           [''log'', range_arg baseBranch currentBranch, ''--pretty=format:%h - %s''] = Inr o3"
    and c4: "cmd_output e ''git'' [''diff'', range_arg baseBranch currentBranch] = Inr o4"
    and c5: "cmd_output e ''git'' [''diff'', ''--stat'', range_arg baseBranch currentBranch] = Inr o5"
  shows "main_B e =
       bind ([Exec ''git'' [''rev-parse'', ''--abbrev-ref'', ''HEAD''],
              Exec ''git'' [''rev-parse'', ''--abbrev-ref'', ''origin/HEAD''],
              Exec ''git'' [''log'', range_arg baseBranch currentBranch, ''--pretty=format:%h - %s''],
              Exec ''git'' [''diff'', range_arg baseBranch currentBranch],
              Exec ''git'' [''diff'', ''--stat'', range_arg baseBranch currentBranch]], Returned ())
         (\<lambda>_. bind (if length (trim_space e o3) > 2
                      then bind (println ''Printing out content'') (\<lambda>_. ([], Returned ''''))
                      else getAnthropicSummary_AB e
                             (''Detailed Changes:\<newline>'' @ trim_space e o4
                              @ ''\<newline>\<newline>Changes Overview:\<newline>'' @ trim_space e o5))
                (\<lambda>summary. println (report_AB currentBranch (trim_space e o3) (trim_space e o5) summary)))"
proof -
  have ok: "bind (getCommandOutput e n a) f = bind ([Exec n a], Returned ()) (\<lambda>_. f (trim_space e out))"
    if "cmd_output e n a = Inr out" for n a out and f :: "string \<Rightarrow> unit io"
    using that by (simp add: bind_def getCommandOutput_def)
  have join: "bind ([a], Returned ()) (\<lambda>_. bind (t', Returned ()) f) = bind (a # t', Returned ()) f"
    for a t' and f :: "unit \<Rightarrow> unit io"
    by (simp add: bind_def split: prod.splits)
  note cs = c1 c2 c3 [unfolded currentBranch_def baseBranch_def]
    c4 [unfolded currentBranch_def baseBranch_def] c5 [unfolded currentBranch_def baseBranch_def]
  show ?thesis
    unfolding main_B_def Let_def currentBranch_def baseBranch_def
    by (simp only: cs [THEN ok] join)
qed

lemma revision_C_skips_the_summary_without_commits:
  fixes e o1 o2 o3 o4 o5
  defines "currentBranch \<equiv> trim_space e o1"
    and "baseBranch \<equiv> (if length (os_args e) > 1 then os_args e ! 1
                        else TrimPrefix (trim_space e o2) ''origin/'')"
  assumes "cmd_output e ''git'' [''rev-parse'', ''--abbrev-ref'', ''HEAD''] = Inr o1"
    and "cmd_output e ''git'' [''rev-parse'', ''--abbrev-ref'', ''origin/HEAD''] = Inr o2"
    and "cmd_output e ''git''
           [''log'', baseBranch @ ''..'' @ currentBranch, ''--pretty=format:%h - %s''] = Inr o3"
    and "cmd_output e ''git'' [''diff'', range_arg baseBranch currentBranch] = Inr o4"
    and "cmd_output e ''git'' [''diff'', ''--stat'', range_arg baseBranch currentBranch] = Inr o5"
    and "length (trim_space e o3) \<le> 0"
  shows "main_C e =
       ([Exec ''git'' [''rev-parse'', ''--abbrev-ref'', ''HEAD''],
         Exec ''git'' [''rev-parse'', ''--abbrev-ref'', ''origin/HEAD''],
         Exec ''git'' [''log'', baseBranch @ ''..'' @ currentBranch, ''--pretty=format:%h - %s''],
         Exec ''git'' [''diff'', range_arg baseBranch currentBranch],
         Exec ''git'' [''diff'', ''--stat'', range_arg baseBranch currentBranch],
         Stdout (report_C currentBranch '''' (trim_space e o5) '''' @ ''\<newline>'')],
        Returned ())"
proof -
  note run = main_C_run [OF assms(3-7) [unfolded currentBranch_def baseBranch_def]]
  from assms(8) have "trim_space e o3 = ''''"
    by simp
  then show ?thesis
    unfolding run currentBranch_def baseBranch_def
    by (simp add: bind_def println_def)
qed

lemma revision_B_summarizes_short_commit_lists:
  fixes e o1 o2 o3 o4 o5
  defines "currentBranch \<equiv> trim_space e o1"
    and "baseBranch \<equiv> (if length (os_args e) > 1 then os_args e ! 1
                        else TrimPrefix (trim_space e o2) ''origin/'')"
  assumes "cmd_output e ''git'' [''rev-parse'', ''--abbrev-ref'', ''HEAD''] = Inr o1"
    and "cmd_output e ''git'' [''rev-parse'', ''--abbrev-ref'', ''origin/HEAD''] = Inr o2"
    and "cmd_output e ''git''
           [''log'', range_arg baseBranch currentBranch, ''--pretty=format:%h - %s''] = Inr o3"
    and "cmd_output e ''git'' [''diff'', range_arg baseBranch currentBranch] = Inr o4"
    and "cmd_output e ''git'' [''diff'', ''--stat'', range_arg baseBranch currentBranch] = Inr o5"
    and "length (trim_space e o3) \<le> 2"
  shows "HttpPost (request_AB e (''Detailed Changes:\<newline>'' @ trim_space e o4
                   @ ''\<newline>\<newline>Changes Overview:\<newline>'' @ trim_space e o5))
           \<in> set (fst (main_B e))"
proof -
  note run = main_B_run [OF assms(3-7) [unfolded currentBranch_def baseBranch_def]]
  have "HttpPost (request_AB e c) \<in> set (fst (getAnthropicSummary_AB e c))" for c
    by (simp add: AB_called)
  with assms(8) show ?thesis
    unfolding run
    by (simp add: fst_bind split: outcome.splits)
qed

text \<open>
  Claim C1, revision B. The threshold of revision B is 2, and its condition is the wrong
  way round: on a repository with no commit between the two branches (the commit list is
  the empty text) it calls the remote service and prints the answer as the summary. With
  a longer list it prints no summary at all, after a reassignment of \<open>content\<close> that nothing
  reads. Revision C does what the claim says.
\<close>

theorem revision_B_summarizes_without_commits:
  "cmd_output demo_no_commits ''git'' [''log'', ''main..feature'', ''--pretty=format:%h - %s'']
     = Inr ''''
   \<and> main_B demo_no_commits =
       ([Exec ''git'' [''rev-parse'', ''--abbrev-ref'', ''HEAD''],
         Exec ''git'' [''rev-parse'', ''--abbrev-ref'', ''origin/HEAD''],
         Exec ''git'' [''log'', ''main..feature'', ''--pretty=format:%h - %s''],
         Exec ''git'' [''diff'', ''main..feature''],
         Exec ''git'' [''diff'', ''--stat'', ''main..feature''],
         HttpPost (request_AB demo_no_commits
           ''Detailed Changes:\<newline>diff --git a/main.go b/main.go\<newline>\<newline>Changes Overview:\<newline>main.go | 2 +-''),
         Stdout (report_AB ''feature'' '''' ''main.go | 2 +-'' ''X'' @ ''\<newline>'')],
        Returned ())"
  by (simp add: main_B_def demo_no_commits_def demo_simps program_simps)

subsection \<open>A failure of the log compression\<close>

lemma summarize_compressed_returns: "\<exists>s. snd (summarize_compressed e cc c) = Returned s"
proof -
  obtain t r where emb: "getEmbeddings e cc = (t, Returned r)"
    using getEmbeddings_returns [of e cc] by (cases "getEmbeddings e cc") auto
  show ?thesis
    unfolding summarize_compressed_def emb
    by (auto simp: bind_def printf_def Let_def split: sum.splits)
qed

lemma getAnthropicSummary_C_returns: "\<exists>s. snd (getAnthropicSummary_C e c) = Returned s"
proof -
  obtain t r where cl: "compressLogs e c = (t, Returned r)"
    using compressLogs_returns [of e c] by (cases "compressLogs e c") auto
  obtain t1 s1 where s1: "summarize_compressed e c c = (t1, Returned s1)"
    using summarize_compressed_returns [of e c c] by (cases "summarize_compressed e c c") auto
  show ?thesis
  proof (cases r)
    case (Inl err)
    with cl s1 show ?thesis
      by (simp add: getAnthropicSummary_C_def bind_def printf_def)
  next
    case (Inr cc)
    obtain t2 s2 where s2: "summarize_compressed e cc c = (t2, Returned s2)"
      using summarize_compressed_returns [of e cc c] by (cases "summarize_compressed e cc c") auto
    with cl Inr show ?thesis
      by (simp add: getAnthropicSummary_C_def bind_def)
  qed
qed

lemma getEmbeddings_trace:
  "fst (getEmbeddings e cc)
     = [HttpPost (http_Post ollamaAPIURL (EmbeddingBody ''nomic-embed-text'' cc))]"
  by (simp add: getEmbeddings_def Let_def split: sum.splits)

lemma summarize_compressed_starts:
  "\<exists>t. fst (summarize_compressed e cc c)
         = HttpPost (http_Post ollamaAPIURL (EmbeddingBody ''nomic-embed-text'' cc)) # t"
proof -
  obtain t r where emb: "getEmbeddings e cc = (t, Returned r)"
    using getEmbeddings_returns [of e cc] by (cases "getEmbeddings e cc") auto
  with getEmbeddings_trace [of e cc]
  have t: "t = [HttpPost (http_Post ollamaAPIURL (EmbeddingBody ''nomic-embed-text'' cc))]"
    by simp
  show ?thesis
    unfolding summarize_compressed_def emb t
    by (simp add: bind_def split: prod.splits)
qed

lemma summarize_compressed_prompt:
  assumes "HttpPost req \<in> set (fst (summarize_compressed e cc c))" and "url req = anthropicAPIURL"
  shows "\<exists>embeddings. req = request_C e (prompt_C (processEmbeddings e embeddings) cc c)"
proof -
  obtain t r where emb: "getEmbeddings e cc = (t, Returned r)"
    using getEmbeddings_returns [of e cc] by (cases "getEmbeddings e cc") auto
  have local: "HttpPost req \<notin> set t"
    using getEmbeddings_local [of req e cc] emb assms(2) url_simps by auto
  show ?thesis
    using assms local
    unfolding summarize_compressed_def emb
    by (auto simp: bind_def printf_def Let_def split: sum.splits if_splits)
qed

text \<open>
  Claim C9. When \<open>compressLogs\<close> fails, \<open>getAnthropicSummary\<close> logs the error and goes on
  with the original content in the place of the compressed one: the embedding request
  that follows is for the original content, and a prompt sent to the remote service has
  it in both places. The function returns a summary in every case, and a run of \<open>main\<close>
  that has come to a network call ends with the report printed.
\<close>

theorem compression_failure_falls_back:
  assumes "snd (compressLogs e content) = Returned (Inl err)"
  shows "getAnthropicSummary_C e content =
           (fst (compressLogs e content)
              @ [Stdout (''Error compressing logs: '' @ err @ ''\<newline>'')]
              @ fst (summarize_compressed e content content),
            snd (summarize_compressed e content content))
       \<and> (\<exists>t. fst (summarize_compressed e content content)
                 = HttpPost (http_Post ollamaAPIURL (EmbeddingBody ''nomic-embed-text'' content)) # t)
       \<and> (\<forall>req. HttpPost req \<in> set (fst (getAnthropicSummary_C e content))
                \<and> url req = anthropicAPIURL \<longrightarrow>
              (\<exists>embeddings.
                 req = request_C e (prompt_C (processEmbeddings e embeddings) content content)))
       \<and> (\<exists>summary. snd (getAnthropicSummary_C e content) = Returned summary)
       \<and> (\<forall>req. HttpPost req \<in> set (fst (main_C e)) \<longrightarrow>
              (\<exists>summary. printed_report report_C summary (main_C e)))"
proof -
  obtain t where cl: "compressLogs e content = (t, Returned (Inl err))"
    using assms by (cases "compressLogs e content") auto
  have eq: "getAnthropicSummary_C e content =
           (fst (compressLogs e content)
              @ [Stdout (''Error compressing logs: '' @ err @ ''\<newline>'')]
              @ fst (summarize_compressed e content content),
            snd (summarize_compressed e content content))"
    unfolding getAnthropicSummary_C_def cl
    by (simp add: bind_def printf_def split: prod.splits)
  have prompt: "\<exists>embeddings.
        req = request_C e (prompt_C (processEmbeddings e embeddings) content content)"
    if "HttpPost req \<in> set (fst (getAnthropicSummary_C e content))" "url req = anthropicAPIURL"
    for req
  proof -
    have "HttpPost req \<notin> set t"
      using compressLogs_local [of req e content] cl that(2) url_simps by auto
    with that(1) have "HttpPost req \<in> set (fst (summarize_compressed e content content))"
      unfolding eq cl by simp
    then show ?thesis
      using that(2) by (rule summarize_compressed_prompt)
  qed
  have main: "\<exists>summary. printed_report report_C summary (main_C e)"
    if "HttpPost req \<in> set (fst (main_C e))" for req
    using main_C_after_call [of req e] that getAnthropicSummary_C_returns by blast
  from eq summarize_compressed_starts prompt getAnthropicSummary_C_returns main
  show ?thesis
    by blast
qed


theorem compression_failure_falls_back_witness:
  "snd (compressLogs demo_no_compression ''diff'')
     = Returned (Inl ''error calling Ollama API: connection refused'')
   \<and> getAnthropicSummary_C demo_no_compression ''diff'' =
       ([HttpPost (http_Post ollamaCompletionURL
                     (CompletionBody ''llama2:3.2'' (compress_prompt ''diff'') False)),
         Stdout ''Error compressing logs: error calling Ollama API: connection refused\<newline>'',
         HttpPost (http_Post ollamaAPIURL (EmbeddingBody ''nomic-embed-text'' ''diff'')),
         HttpPost (request_C demo_no_compression
                     (prompt_C (processEmbeddings demo_no_compression [0, 0]) ''diff'' ''diff'')),
         Stdout (''Anthropic API Response: '' @ answer_X @ ''\<newline>'')],
        Returned ''X'')
   \<and> (\<exists>summary. printed_report report_C summary (main_C demo_no_compression))"
proof -
  have failed: "snd (compressLogs demo_no_compression ''diff'')
     = Returned (Inl ''error calling Ollama API: connection refused'')"
    by (simp add: demo_no_compression_def demo_simps program_simps)
  have run: "getAnthropicSummary_C demo_no_compression ''diff'' =
       ([HttpPost (http_Post ollamaCompletionURL
                     (CompletionBody ''llama2:3.2'' (compress_prompt ''diff'') False)),
         Stdout ''Error compressing logs: error calling Ollama API: connection refused\<newline>'',
         HttpPost (http_Post ollamaAPIURL (EmbeddingBody ''nomic-embed-text'' ''diff'')),
         HttpPost (request_C demo_no_compression
                     (prompt_C (processEmbeddings demo_no_compression [0, 0]) ''diff'' ''diff'')),
         Stdout (''Anthropic API Response: '' @ answer_X @ ''\<newline>'')],
        Returned ''X'')"
    by (simp add: demo_no_compression_def demo_simps program_simps)
  have called: "HttpPost (http_Post ollamaAPIURL (EmbeddingBody ''nomic-embed-text''
      ''Detailed Changes:\<newline>diff --git a/main.go b/main.go\<newline>\<newline>Changes Overview:\<newline>main.go | 2 +-''))
      \<in> set (fst (main_C demo_no_compression))"
    by (simp add: main_C_def demo_no_compression_def demo_simps program_simps)
  from compression_failure_falls_back [OF failed] failed run called show ?thesis
    by blast
qed

subsection \<open>The norm of the normalized vector\<close>

text \<open>
  From a relative error of each operation to bounds on the results: the running sum after
  \<open>n\<close> additions, the magnitude, and the norm of the quotients.
\<close>

lemma sum_of_squares_nonneg: "0 \<le> sum_of_squares xs"
  by (induction xs) (simp_all add: sum_of_squares_def)

lemma within_bounds:
  fixes a b u :: real
  assumes "\<bar>a - b\<bar> \<le> u * \<bar>b\<bar>" and "0 \<le> b"
  shows "(1 - u) * b \<le> a" and "a \<le> (1 + u) * b"
  using assms by (simp_all add: algebra_simps abs_le_iff)

lemma accumulate_bounds:
  assumes "0 \<le> u" and "u \<le> 1" and "0 \<le> float_value m" and "accumulates_within e u m vs"
  shows "(1 - u) ^ length vs * (float_value m + sum_of_squares vs)
           \<le> float_value (sum_squares e m vs)
       \<and> float_value (sum_squares e m vs)
           \<le> (1 + u) ^ length vs * (float_value m + sum_of_squares vs)"
  using assms(3,4)
proof (induction vs arbitrary: m)
  case Nil
  then show ?case by (simp add: sum_of_squares_def)
next
  case (Cons v vs)
  define a where "a = float_value m"
  define b where "b = a + (float_value v)\<^sup>2"
  define a' where "a' = float_value (add_square e m v)"
  define S where "S = sum_of_squares vs"
  have b0: "0 \<le> b"
    using Cons.prems(1) by (simp add: b_def a_def)
  have S0: "0 \<le> S"
    by (simp add: S_def sum_of_squares_nonneg)
  from Cons.prems(2) have close: "\<bar>a' - b\<bar> \<le> u * \<bar>b\<bar>"
    and rest: "accumulates_within e u (add_square e m v) vs"
    by (simp_all add: a'_def b_def a_def)
  from within_bounds [OF close b0] have lo: "(1 - u) * b \<le> a'" and hi: "a' \<le> (1 + u) * b"
    by simp_all
  from lo b0 assms(2) have a'0: "0 \<le> a'"
    by (meson diff_ge_0_iff_ge mult_nonneg_nonneg order_trans)
  from Cons.IH [OF _ rest] a'0
  have IH: "(1 - u) ^ length vs * (a' + S) \<le> float_value (sum_squares e (add_square e m v) vs)"
    "float_value (sum_squares e (add_square e m v) vs) \<le> (1 + u) ^ length vs * (a' + S)"
    by (simp_all add: a'_def S_def)
  have total: "float_value m + sum_of_squares (v # vs) = b + S"
    by (simp add: b_def a_def S_def sum_of_squares_def)
  have "(1 - u) * (b + S) \<le> a' + S"
  proof -
    have "(1 - u) * S \<le> S"
      using mult_nonneg_nonneg [OF assms(1) S0] by (simp add: algebra_simps)
    with lo show ?thesis by (simp add: algebra_simps)
  qed
  then have "(1 - u) ^ length vs * ((1 - u) * (b + S)) \<le> (1 - u) ^ length vs * (a' + S)"
    using assms(2) by (intro mult_left_mono) simp_all
  with IH(1) have "(1 - u) ^ length vs * ((1 - u) * (b + S))
      \<le> float_value (sum_squares e (add_square e m v) vs)"
    by linarith
  then have lower: "(1 - u) ^ length (v # vs) * (b + S)
      \<le> float_value (sum_squares e (add_square e m v) vs)"
    by (simp add: mult_ac)
  have "a' + S \<le> (1 + u) * (b + S)"
  proof -
    have "S \<le> (1 + u) * S"
      using mult_nonneg_nonneg [OF assms(1) S0] by (simp add: algebra_simps)
    with hi show ?thesis by (simp add: algebra_simps)
  qed
  then have "(1 + u) ^ length vs * (a' + S) \<le> (1 + u) ^ length vs * ((1 + u) * (b + S))"
    using assms(1) by (intro mult_left_mono) simp_all
  with IH(2) have "float_value (sum_squares e (add_square e m v) vs)
      \<le> (1 + u) ^ length vs * ((1 + u) * (b + S))"
    by linarith
  then have upper: "float_value (sum_squares e (add_square e m v) vs)
      \<le> (1 + u) ^ length (v # vs) * (b + S)"
    by (simp add: mult_ac)
  from lower upper show ?case
    unfolding total by simp
qed

lemma square_bounds:
  fixes q r u :: real
  assumes "\<bar>q - r\<bar> \<le> u * \<bar>r\<bar>" and "0 \<le> u" and "u \<le> 1"
  shows "(1 - u)\<^sup>2 * r\<^sup>2 \<le> q\<^sup>2" and "q\<^sup>2 \<le> (1 + u)\<^sup>2 * r\<^sup>2"
proof -
  have up: "\<bar>q\<bar> \<le> (1 + u) * \<bar>r\<bar>"
    using assms(1) by (simp add: algebra_simps)
  have lo: "(1 - u) * \<bar>r\<bar> \<le> \<bar>q\<bar>"
    using assms(1) by (simp add: algebra_simps)
  have "\<bar>q\<bar>\<^sup>2 \<le> ((1 + u) * \<bar>r\<bar>)\<^sup>2"
    using up by (intro power_mono) simp_all
  then show "q\<^sup>2 \<le> (1 + u)\<^sup>2 * r\<^sup>2"
    by (simp add: power_mult_distrib)
  have "((1 - u) * \<bar>r\<bar>)\<^sup>2 \<le> \<bar>q\<bar>\<^sup>2"
    using lo assms(3) by (intro power_mono) simp_all
  then show "(1 - u)\<^sup>2 * r\<^sup>2 \<le> q\<^sup>2"
    by (simp add: power_mult_distrib)
qed

lemma quotient_squares_bounds:
  assumes "0 \<le> u" and "u \<le> 1" and "list_all (quotient_within e u m) xs"
  shows "(1 - u)\<^sup>2 * (sum_of_squares xs / (float_value m)\<^sup>2)
           \<le> sum_of_squares (map (\<lambda>x. fdiv e x m) xs)
       \<and> sum_of_squares (map (\<lambda>x. fdiv e x m) xs)
           \<le> (1 + u)\<^sup>2 * (sum_of_squares xs / (float_value m)\<^sup>2)"
  using assms(3)
proof (induction xs)
  case Nil
  show ?case by (simp add: sum_of_squares_def)
next
  case (Cons x xs)
  define q where "q = float_value (fdiv e x m)"
  define r where "r = float_value x / float_value m"
  from Cons.prems have head: "quotient_within e u m x"
    and rest: "list_all (quotient_within e u m) xs"
    by simp_all
  from head have close: "\<bar>q - r\<bar> \<le> u * \<bar>r\<bar>"
    unfolding quotient_within_def q_def r_def by (rule conjunct2)
  note sq = square_bounds [OF close assms(1,2)]
  have r2: "r\<^sup>2 = (float_value x)\<^sup>2 / (float_value m)\<^sup>2"
    by (simp add: r_def power_divide)
  have split: "sum_of_squares (x # xs) / (float_value m)\<^sup>2
      = r\<^sup>2 + sum_of_squares xs / (float_value m)\<^sup>2"
    by (simp add: sum_of_squares_def r2 add_divide_distrib)
  have mapped: "sum_of_squares (map (\<lambda>x. fdiv e x m) (x # xs))
      = q\<^sup>2 + sum_of_squares (map (\<lambda>x. fdiv e x m) xs)"
    by (simp add: sum_of_squares_def q_def)
  from Cons.IH [OF rest] sq show ?case
    unfolding split mapped by (simp add: algebra_simps)
qed

lemma quotient_norm_bounds:
  assumes "0 \<le> u" and "u \<le> 1" and "0 < float_value m"
    and "list_all (quotient_within e u m) xs"
  shows "(1 - u) * (norm_of xs / float_value m) \<le> norm_of (map (\<lambda>x. fdiv e x m) xs)
       \<and> norm_of (map (\<lambda>x. fdiv e x m) xs) \<le> (1 + u) * (norm_of xs / float_value m)"
proof -
  note b = quotient_squares_bounds [OF assms(1,2,4)]
  have root: "sqrt (c\<^sup>2 * (sum_of_squares xs / (float_value m)\<^sup>2))
      = c * (norm_of xs / float_value m)" if "0 \<le> c" for c
    using that assms(3) by (simp add: real_sqrt_mult real_sqrt_divide norm_of_def)
  have lo: "sqrt ((1 - u)\<^sup>2 * (sum_of_squares xs / (float_value m)\<^sup>2))
      = (1 - u) * (norm_of xs / float_value m)"
    using assms(2) by (intro root) simp
  have hi: "sqrt ((1 + u)\<^sup>2 * (sum_of_squares xs / (float_value m)\<^sup>2))
      = (1 + u) * (norm_of xs / float_value m)"
    using assms(1) by (intro root) simp
  from b have lower: "sqrt ((1 - u)\<^sup>2 * (sum_of_squares xs / (float_value m)\<^sup>2))
      \<le> norm_of (map (\<lambda>x. fdiv e x m) xs)"
    unfolding norm_of_def by (intro real_sqrt_le_mono) (rule conjunct1)
  from b have upper: "norm_of (map (\<lambda>x. fdiv e x m) xs)
      \<le> sqrt ((1 + u)\<^sup>2 * (sum_of_squares xs / (float_value m)\<^sup>2))"
    unfolding norm_of_def by (intro real_sqrt_le_mono) (rule conjunct2)
  from lower [unfolded lo] upper [unfolded hi] show ?thesis
    by (rule conjI)
qed

lemma float_value_zero: "float_value 0 = 0"
  by (simp add: float_value_def exponent_bits_def fraction_bits_def is_negative_def)

lemma magnitude_bounds:
  assumes u0: "0 \<le> u" and u1: "u < 1"
    and rounds: "rounds_within e u xs"
  shows "(1 - u) * sqrt ((1 - u) ^ length xs) * norm_of xs \<le> float_value (magnitude_of e xs)
       \<and> float_value (magnitude_of e xs) \<le> (1 + u) * sqrt ((1 + u) ^ length xs) * norm_of xs"
proof -
  define A where "A = float_value (sum_squares e 0 xs)"
  define M where "M = float_value (magnitude_of e xs)"
  define S where "S = sum_of_squares xs"
  have S0: "0 \<le> S"
    unfolding S_def by (rule sum_of_squares_nonneg)
  from rounds have acc: "accumulates_within e u 0 xs"
    and rt: "\<bar>M - sqrt A\<bar> \<le> u * sqrt A"
    by (simp_all add: rounds_within_def A_def M_def)
  from accumulate_bounds [of u 0 e xs] u0 u1 acc
  have A_lo: "(1 - u) ^ length xs * S \<le> A" and A_hi: "A \<le> (1 + u) ^ length xs * S"
    by (simp_all add: float_value_zero A_def S_def)
  have "0 \<le> (1 - u) ^ length xs * S"
    using u1 S0 by simp
  with A_lo have A0: "0 \<le> A"
    by linarith
  from rt A0 have "\<bar>M - sqrt A\<bar> \<le> u * \<bar>sqrt A\<bar>"
    by simp
  from within_bounds [OF this] A0
  have M_lo: "(1 - u) * sqrt A \<le> M" and M_hi: "M \<le> (1 + u) * sqrt A"
    by simp_all
  have "sqrt ((1 - u) ^ length xs) * norm_of xs = sqrt ((1 - u) ^ length xs * S)"
    by (simp add: real_sqrt_mult norm_of_def S_def)
  also have "\<dots> \<le> sqrt A"
    using A_lo by simp
  finally have "(1 - u) * (sqrt ((1 - u) ^ length xs) * norm_of xs) \<le> (1 - u) * sqrt A"
    using u1 by (intro mult_left_mono) simp_all
  with M_lo have lower: "(1 - u) * sqrt ((1 - u) ^ length xs) * norm_of xs \<le> M"
    by (simp add: mult.assoc)
  have "sqrt A \<le> sqrt ((1 + u) ^ length xs * S)"
    using A_hi by simp
  also have "\<dots> = sqrt ((1 + u) ^ length xs) * norm_of xs"
    by (simp add: real_sqrt_mult norm_of_def S_def)
  finally have "(1 + u) * sqrt A \<le> (1 + u) * (sqrt ((1 + u) ^ length xs) * norm_of xs)"
    using u0 by (intro mult_left_mono) simp_all
  with M_hi have upper: "M \<le> (1 + u) * sqrt ((1 + u) ^ length xs) * norm_of xs"
    by (simp add: mult.assoc)
  from lower upper show ?thesis
    unfolding M_def by (rule conjI)
qed

lemmas float_simps = float_value_def exponent_bits_def fraction_bits_def is_negative_def
  is_finite_def

lemmas unit_simps = demo_ieee_def demo_add_square_def demo_fsqrt_def demo_fdiv_def
  demo_inf_def demo_nan_def

lemma sum_of_squares_simps:
  "sum_of_squares [] = 0"
  "sum_of_squares (x # xs) = (float_value x)\<^sup>2 + sum_of_squares xs"
  by (simp_all add: sum_of_squares_def)

text \<open>
  Claim C2, as amended. Let \<open>embeddings\<close> be finite numbers whose Euclidean magnitude is
  not zero, of length \<open>n\<close>, and let every operation of \<open>processEmbeddings\<close> on them return
  a finite number within relative error \<open>u < 1\<close> of the exact result. Then the Euclidean
  norm of the normalized vector lies between \<open>(1 - u) / ((1 + u) * sqrt ((1 + u) ^ n))\<close> and
  \<open>(1 + u) / ((1 - u) * sqrt ((1 - u) ^ n))\<close>, an interval around 1 that closes on 1 as \<open>u\<close>
  goes to 0.
\<close>

theorem normalized_norm_within_tolerance:
  assumes u0: "0 \<le> u" and u1: "u < 1"
    and rounds: "rounds_within e u embeddings"
    and nonzero: "norm_of embeddings \<noteq> 0"
  shows "(1 - u) / ((1 + u) * sqrt ((1 + u) ^ length embeddings))
           \<le> norm_of (normalized_embeddings e embeddings)
       \<and> norm_of (normalized_embeddings e embeddings)
           \<le> (1 + u) / ((1 - u) * sqrt ((1 - u) ^ length embeddings))"
proof -
  define M where "M = float_value (magnitude_of e embeddings)"
  define N where "N = norm_of embeddings"
  define L where "L = (1 - u) * sqrt ((1 - u) ^ length embeddings)"
  define U where "U = (1 + u) * sqrt ((1 + u) ^ length embeddings)"
  define N' where "N' = norm_of (map (\<lambda>v. fdiv e v (magnitude_of e embeddings)) embeddings)"
  have "0 \<le> N"
    unfolding N_def norm_of_def by (simp add: sum_of_squares_nonneg)
  with nonzero have N0: "0 < N"
    unfolding N_def by simp
  have L0: "0 < L"
    unfolding L_def using u1 by simp
  have U0: "0 < U"
    unfolding U_def using u0 by simp
  from magnitude_bounds [OF u0 u1 rounds]
  have M_lo: "L * N \<le> M" and M_hi: "M \<le> U * N"
    unfolding M_def N_def L_def U_def by simp_all
  from L0 N0 have "0 < L * N"
    by simp
  with M_lo have M0: "0 < M"
    by linarith
  from rounds have "list_all (quotient_within e u (magnitude_of e embeddings)) embeddings"
    by (simp add: rounds_within_def)
  from quotient_norm_bounds [OF u0 _ M0 [unfolded M_def] this] u1
  have N'_lo: "(1 - u) * (N / M) \<le> N'" and N'_hi: "N' \<le> (1 + u) * (N / M)"
    unfolding N'_def N_def M_def by simp_all
  have "N / M \<le> N / (L * N)"
    using M_lo N0 \<open>0 < L * N\<close> by (intro divide_left_mono) simp_all
  also have "\<dots> = 1 / L"
    using N0 by simp
  finally have "(1 + u) * (N / M) \<le> (1 + u) * (1 / L)"
    using u0 by (intro mult_left_mono) simp_all
  with N'_hi have upper: "N' \<le> (1 + u) / L"
    by simp
  have "1 / U = N / (U * N)"
    using N0 by simp
  also have "\<dots> \<le> N / M"
    using M_hi N0 M0 by (intro divide_left_mono) simp_all
  finally have "(1 - u) * (1 / U) \<le> (1 - u) * (N / M)"
    using u1 by (intro mult_left_mono) simp_all
  with N'_lo have lower: "(1 - u) / U \<le> N'"
    by simp
  from lower upper show ?thesis
    unfolding N'_def L_def U_def normalize_eq_map by (rule conjI)
qed

theorem normalized_norm_within_tolerance_witness:
  "(0 :: real) \<le> 1 / 2 ^ 52 \<and> (1 :: real) / 2 ^ 52 < 1
   \<and> rounds_within demo_ieee (1 / 2 ^ 52) [0x4008000000000000, 0x4010000000000000]
   \<and> norm_of [0x4008000000000000, 0x4010000000000000] \<noteq> 0
   \<and> normalized_embeddings demo_ieee [0x4008000000000000, 0x4010000000000000]
       = [0x3FE3333333333333, 0x3FE999999999999A]
   \<and> (1 - 1 / 2 ^ 52) / ((1 + 1 / 2 ^ 52) * sqrt ((1 + 1 / 2 ^ 52) ^ 2))
       \<le> norm_of (normalized_embeddings demo_ieee [0x4008000000000000, 0x4010000000000000])
   \<and> norm_of (normalized_embeddings demo_ieee [0x4008000000000000, 0x4010000000000000])
       \<le> (1 + 1 / 2 ^ 52) / ((1 - 1 / 2 ^ 52) * sqrt ((1 - 1 / 2 ^ 52) ^ 2))"
proof -
  have u0: "(0 :: real) \<le> 1 / 2 ^ 52" and u1: "(1 :: real) / 2 ^ 52 < 1"
    by simp_all
  have vals: "float_value 0 = 0" "float_value 0x4008000000000000 = 3"
    "float_value 0x4010000000000000 = 4" "float_value 0x4014000000000000 = 5"
    "float_value 0x4022000000000000 = 9" "float_value 0x4039000000000000 = 25"
    "float_value 0x3FE3333333333333 = 5404319552844595 / 9007199254740992"
    "float_value 0x3FE999999999999A = 3602879701896397 / 4503599627370496"
    by (simp_all add: float_simps)
  have finite: "is_finite 0x4008000000000000" "is_finite 0x4010000000000000"
    "is_finite 0x4014000000000000" "is_finite 0x4022000000000000"
    "is_finite 0x4039000000000000" "is_finite 0x3FE3333333333333"
    "is_finite 0x3FE999999999999A"
    by (simp_all add: is_finite_def exponent_bits_def)
  have squares: "sum_squares demo_ieee 0 [0x4008000000000000, 0x4010000000000000]
      = 0x4039000000000000"
    by (simp add: unit_simps is_finite_def exponent_bits_def)
  have magnitude: "magnitude_of demo_ieee [0x4008000000000000, 0x4010000000000000]
      = 0x4014000000000000"
    unfolding magnitude_of_def squares by (simp add: unit_simps)
  have root: "sqrt 25 = 5"
    by (rule real_sqrt_unique) simp_all
  have steps: "accumulates_within demo_ieee (1 / 2 ^ 52) 0
      [0x4008000000000000, 0x4010000000000000]"
    by (simp add: unit_simps is_finite_def exponent_bits_def vals)
  have quotients: "list_all (quotient_within demo_ieee (1 / 2 ^ 52) 0x4014000000000000)
      [0x4008000000000000, 0x4010000000000000]"
    by (simp add: quotient_within_def unit_simps is_finite_def exponent_bits_def vals)
  have rounds: "rounds_within demo_ieee (1 / 2 ^ 52) [0x4008000000000000, 0x4010000000000000]"
    unfolding rounds_within_def magnitude squares
    using steps quotients finite by (simp add: vals root)
  have "0 < sum_of_squares [0x4008000000000000, 0x4010000000000000]"
    by (simp add: sum_of_squares_simps vals)
  then have nonzero: "norm_of [0x4008000000000000, 0x4010000000000000] \<noteq> 0"
    by (simp add: norm_of_def)
  have normalized: "normalized_embeddings demo_ieee [0x4008000000000000, 0x4010000000000000]
       = [0x3FE3333333333333, 0x3FE999999999999A]"
    unfolding normalize_eq_map magnitude
    by (simp add: unit_simps is_finite_def exponent_bits_def)
  have two: "length [0x4008000000000000 :: float64, 0x4010000000000000] = 2"
    by simp
  from normalized_norm_within_tolerance [OF u0 u1 rounds nonzero, unfolded two]
    u0 u1 rounds nonzero normalized
  show ?thesis
    by blast
qed

text \<open>
  Claim C2 as stated fails when a square overflows. The magnitude of
  \<open>[1e200, -1e200, 1]\<close> is not zero, but \<open>1e200 * 1e200\<close> is above every finite \<open>float64\<close>:
  the sum of squares is \<open>+Inf\<close>, so is its root, and every element divided by it is a zero.
  The normalized vector \<open>[0, -0, 0]\<close> has norm 0, not 1.
\<close>

theorem overflowing_squares_give_norm_zero:
  "is_finite 0x6974E718D7D7625A \<and> is_finite 0xE974E718D7D7625A \<and> is_finite 0x3FF0000000000000
   \<and> norm_of [0x6974E718D7D7625A, 0xE974E718D7D7625A, 0x3FF0000000000000] \<noteq> 0
   \<and> magnitude_of demo_ieee [0x6974E718D7D7625A, 0xE974E718D7D7625A, 0x3FF0000000000000]
       = 0x7FF0000000000000
   \<and> normalized_embeddings demo_ieee
         [0x6974E718D7D7625A, 0xE974E718D7D7625A, 0x3FF0000000000000]
       = [0, 0x8000000000000000, 0]
   \<and> norm_of (normalized_embeddings demo_ieee
         [0x6974E718D7D7625A, 0xE974E718D7D7625A, 0x3FF0000000000000]) = 0"
proof -
  have finite: "is_finite 0x6974E718D7D7625A" "is_finite 0xE974E718D7D7625A"
    "is_finite 0x3FF0000000000000"
    by (simp_all add: is_finite_def exponent_bits_def)
  have "0 < sum_of_squares [0x6974E718D7D7625A, 0xE974E718D7D7625A, 0x3FF0000000000000]"
    by (simp add: sum_of_squares_simps float_simps)
  then have nonzero:
    "norm_of [0x6974E718D7D7625A, 0xE974E718D7D7625A, 0x3FF0000000000000] \<noteq> 0"
    by (simp add: norm_of_def)
  have magnitude:
    "magnitude_of demo_ieee [0x6974E718D7D7625A, 0xE974E718D7D7625A, 0x3FF0000000000000]
       = 0x7FF0000000000000"
    by (simp add: magnitude_of_def unit_simps is_finite_def exponent_bits_def)
  have normalized: "normalized_embeddings demo_ieee
         [0x6974E718D7D7625A, 0xE974E718D7D7625A, 0x3FF0000000000000]
       = [0, 0x8000000000000000, 0]"
    unfolding normalize_eq_map magnitude
    by (simp add: unit_simps is_finite_def exponent_bits_def)
  have "norm_of [0, 0x8000000000000000, 0] = 0"
    by (simp add: norm_of_def sum_of_squares_simps float_simps)
  with finite nonzero magnitude normalized show ?thesis
    by simp
qed

end
